(* ===== verification/Prelude.thy ===== *)
theory Prelude
  imports Main
begin

text \<open>
  The Python 2 runtime the driver script relies on, as far as its behaviour shows in
  \<open>src/driver.py\<close>: the exceptions the script can raise, string slicing \<open>s[a:b]\<close>,
  subscription \<open>s[i]\<close> and \<open>str.replace\<close>. A Python 2 \<open>str\<close> is a byte string, so
  it is modelled as \<open>string\<close> (a list of 8-bit \<open>char\<close>s). The theory also holds the
  collection \<open>py_simps\<close> of evaluation rules the component theories share.
\<close>

named_theorems py_simps "evaluation rules of the modelled Python primitives"

section \<open>Exceptions\<close>

text \<open>
  The exceptions that can end the script: \<open>IndexError\<close> from \<open>line[33]\<close>,
  \<open>SerialException\<close> from opening or reading the port, and \<open>ConnectionError\<close>
  from \<open>requests.post\<close> (no timeout is set, so a network failure surfaces as this one),
  and \<open>UnicodeDecodeError\<close> from \<open>json.dumps\<close> when a field of the body is not
  UTF-8. None of them is caught anywhere in the script.
\<close>

datatype exc = IndexError | SerialException | ConnectionError | UnicodeDecodeError

type_synonym 'a result = "exc + 'a"

section \<open>Slicing and subscription\<close>

text \<open>
  CPython's slice with step 1: a missing bound is the start or the end, a negative bound
  counts from the end, and both are clamped to \<open>[0, len]\<close>; the slice is empty when the
  clamped start is not below the clamped stop. Slicing never raises.
\<close>

definition py_clamp :: "nat \<Rightarrow> int \<Rightarrow> nat" where
  "py_clamp n i = (if i < 0 then nat (max 0 (int n + i)) else min (nat i) n)"

definition py_slice :: "'a list \<Rightarrow> int option \<Rightarrow> int option \<Rightarrow> 'a list" where
  "py_slice xs lo hi =
     (let n = length xs;
          a = (case lo of None \<Rightarrow> 0 | Some i \<Rightarrow> py_clamp n i);
          b = (case hi of None \<Rightarrow> n | Some j \<Rightarrow> py_clamp n j)
      in take (b - a) (drop a xs))"

text \<open>Subscription \<open>xs[i]\<close>: a negative index counts from the end; out of range raises.\<close>

definition py_getitem :: "'a list \<Rightarrow> int \<Rightarrow> 'a result" where
  "py_getitem xs i =
     (let k = (if 0 \<le> i then i else i + int (length xs))
      in if k < 0 \<or> int (length xs) \<le> k then Inl IndexError else Inr (xs ! nat k))"

section \<open>\<open>str.replace\<close>\<close>

text \<open>
  CPython's \<open>s.replace(old, new)\<close> (no count): scanning left to right, every
  occurrence of a non-empty \<open>old\<close> that does not overlap an earlier replaced one is
  replaced by \<open>new\<close>; an empty \<open>old\<close> matches before every character and at the end.
\<close>

function replace_scan :: "'a list \<Rightarrow> 'a list \<Rightarrow> 'a list \<Rightarrow> 'a list" where
  "replace_scan old new [] = []"
| "replace_scan old new (c # cs) =
     (if old \<noteq> [] \<and> take (length old) (c # cs) = old
      then new @ replace_scan old new (drop (length old) (c # cs))
      else c # replace_scan old new cs)"
  by pat_completeness auto
termination
  by (relation "measure (\<lambda>(old, new, s). length s)") auto

definition py_replace :: "'a list \<Rightarrow> 'a list \<Rightarrow> 'a list \<Rightarrow> 'a list" where
  "py_replace s old new =
     (if old = [] then new @ concat (map (\<lambda>c. c # new) s) else replace_scan old new s)"

text \<open>\<open>sep.join(parts)\<close>: the parts with the separator between each two.\<close>

fun py_join :: "'a list \<Rightarrow> 'a list list \<Rightarrow> 'a list" where
  "py_join sep [] = []"
| "py_join sep [p] = p"
| "py_join sep (p # q # ps) = p @ sep @ py_join sep (q # ps)"

section \<open>Lemmas on the primitives\<close>

lemma map_sum_eq_Inr: "map_sum f g x = Inr y \<longleftrightarrow> (\<exists>z. x = Inr z \<and> y = g z)"
  by (cases x) auto

lemma py_clamp_nonneg [py_simps]: "py_clamp n (int i) = min i n"
  by (simp add: py_clamp_def)

text \<open>Slices with non-negative bounds are \<open>take\<close> and \<open>drop\<close>.\<close>

lemma py_slice_prefix [py_simps]: "py_slice xs None (Some (int j)) = take j xs"
  by (simp add: py_slice_def py_clamp_nonneg Let_def min_def)

lemma py_slice_range [py_simps]:
  "py_slice xs (Some (int i)) (Some (int j)) = take (j - i) (drop i xs)"
proof -
  have "take (min j (length xs) - min i (length xs)) (drop (min i (length xs)) xs)
        = take (j - i) (drop i xs)"
    by (cases "i \<le> length xs"; cases "j \<le> length xs") (auto simp: min_def)
  then show ?thesis by (simp add: py_slice_def py_clamp_nonneg)
qed

lemma length_py_slice_le: "length (py_slice xs lo hi) \<le> length xs"
  by (simp add: py_slice_def Let_def)

lemma py_getitem_nonneg [py_simps]:
  "py_getitem xs (int i) = (if i < length xs then Inr (xs ! i) else Inl IndexError)"
  by (simp add: py_getitem_def)

text \<open>The same rules for numeral bounds, as the source writes them.\<close>

lemma py_slice_numerals [py_simps]:
  "py_slice xs None (Some (numeral j)) = take (numeral j) xs"
  "py_slice xs (Some (numeral i)) (Some (numeral j)) = take (numeral j - numeral i) (drop (numeral i) xs)"
  using py_slice_prefix [of xs "numeral j"] py_slice_range [of xs "numeral i" "numeral j"]
  by simp_all

lemma py_getitem_numeral [py_simps]:
  "py_getitem xs (numeral i) = (if numeral i < length xs then Inr (xs ! numeral i) else Inl IndexError)"
  using py_getitem_nonneg [of xs "numeral i"] by simp

lemma replace_scan_single_nil [py_simps]:
  "replace_scan [c] [] s = filter (\<lambda>x. x \<noteq> c) s"
  by (induction s) auto

lemma py_replace_delete_char [py_simps]: "py_replace s [c] [] = filter (\<lambda>x. x \<noteq> c) s"
  by (simp add: py_replace_def replace_scan_single_nil)

end
