(* ===== verification/Serial.thy ===== *)
theory Serial
  imports Prelude
begin

text \<open>
  The serial connection of \<open>src/driver.py\<close>: \<open>serial.Serial(port, 9600)\<close> (line 5)
  and \<open>ser.readline()\<close> (line 10). The port is pyserial's; its observable behaviour is
  modelled here. The device is a sequence of events, a received byte or the device going
  away (unplugged), which makes \<open>read(1)\<close> raise \<open>SerialException\<close>. With no timeout
  (the script passes none), \<open>readline\<close> is pyserial's \<open>read_until\<close> loop with terminator
  \<open>\n\<close>: it reads one byte at a time, keeps the terminator, and blocks while no byte
  comes; on a finite list of events, running out of events is that block.
\<close>

datatype serial_event = Byte char | Unplug

record serial_config =
  port :: string
  baudrate :: nat

datatype read_result =
    Got string "serial_event list"
  | Blocked
  | Failed exc "serial_event list"

abbreviation nl :: char where
  "nl \<equiv> CHR ''\<newline>''"

section \<open>Opening the port\<close>

text \<open>\<open>serial.Serial(port, baudrate)\<close> opens the port at once and raises when the device is absent.\<close>

definition open_serial :: "string list \<Rightarrow> string \<Rightarrow> nat \<Rightarrow> serial_config result" where
  "open_serial present p b =
     (if p \<in> set present then Inr \<lparr>port = p, baudrate = b\<rparr> else Inl SerialException)"

section \<open>readline\<close>

text \<open>
  pyserial's \<open>read_until\<close>: \<open>line += read(1)\<close> until \<open>line\<close> ends with the terminator.
  The accumulator is the line read so far.
\<close>

fun read_until :: "string \<Rightarrow> serial_event list \<Rightarrow> read_result" where
  "read_until acc [] = Blocked"
| "read_until acc (Unplug # evs) = Failed SerialException evs"
| "read_until acc (Byte c # evs) =
     (if c = nl then Got (acc @ [c]) evs else read_until (acc @ [c]) evs)"

definition readline :: "serial_event list \<Rightarrow> read_result" where
  "readline evs = read_until [] evs"

text \<open>
  The reference: the longest prefix of bytes that holds no terminator, then one more
  event decides.
\<close>

fun bytes_of :: "serial_event list \<Rightarrow> string" where
  "bytes_of [] = []"
| "bytes_of (Byte c # evs) = c # bytes_of evs"
| "bytes_of (Unplug # evs) = bytes_of evs"

definition line_prefix :: "serial_event list \<Rightarrow> serial_event list" where
  "line_prefix evs = takeWhile (\<lambda>e. e \<noteq> Unplug \<and> e \<noteq> Byte nl) evs"

definition readline_spec :: "serial_event list \<Rightarrow> read_result" where
  "readline_spec evs =
     (let pre = line_prefix evs
      in case drop (length pre) evs of
           [] \<Rightarrow> Blocked
         | Unplug # rest \<Rightarrow> Failed SerialException rest
         | Byte c # rest \<Rightarrow> Got (bytes_of pre @ [c]) rest)"

text \<open>A device that sends the bytes of a string.\<close>

definition feed :: "string \<Rightarrow> serial_event list" where
  "feed s = map Byte s"

text \<open>A device that sends a list of lines, each followed by the terminator.\<close>

definition line_events :: "string list \<Rightarrow> serial_event list" where
  "line_events ls = feed (concat (map (\<lambda>l. l @ [nl]) ls))"

section \<open>Lemmas\<close>

lemma bytes_of_feed [simp]: "bytes_of (feed s) = s"
  by (induction s) (simp_all add: feed_def)

lemma feed_simps [simp]:
  "feed [] = []" "feed (c # s) = Byte c # feed s" "feed (s @ t) = feed s @ feed t"
  by (simp_all add: feed_def)

lemma read_until_feed_nonl:
  "nl \<notin> set s \<Longrightarrow> read_until acc (feed s @ evs) = read_until (acc @ s) evs"
  by (induction s arbitrary: acc) auto

lemma line_events_simps [simp]:
  "line_events [] = []" "line_events (l # ls) = feed l @ Byte nl # line_events ls"
  by (simp_all add: line_events_def)

lemma readline_feed_line:
  "nl \<notin> set l \<Longrightarrow> readline (feed l @ Byte nl # evs) = Got (l @ [nl]) evs"
  by (simp add: readline_def read_until_feed_nonl)

lemma readline_feed_unplug:
  "nl \<notin> set l \<Longrightarrow> readline (feed l @ Unplug # evs) = Failed SerialException evs"
  by (simp add: readline_def read_until_feed_nonl)

text \<open>
  C14. The byte-at-a-time loop of \<open>readline\<close> computes the reference: from any
  partial line, it returns the bytes up to the first terminator (the terminator kept)
  after the partial line, raises if the device goes away first, and blocks if neither
  comes.
\<close>

theorem read_until_eq_spec:
  "read_until acc evs =
     (case readline_spec evs of Got l rest \<Rightarrow> Got (acc @ l) rest | r \<Rightarrow> r)"
proof (induction acc evs rule: read_until.induct)
  case (1 acc)
  then show ?case by (simp add: readline_spec_def line_prefix_def)
next
  case (2 acc evs)
  then show ?case by (simp add: readline_spec_def line_prefix_def)
next
  case (3 acc c evs)
  then show ?case
    by (auto simp: readline_spec_def line_prefix_def Let_def split: list.splits serial_event.splits)
qed

lemma read_until_Got:
  "read_until acc evs = Got l rest \<Longrightarrow>
     \<exists>s. l = acc @ s \<and> evs = feed s @ rest \<and> s \<noteq> [] \<and> last s = nl \<and> nl \<notin> set (butlast s)"
proof (induction acc evs rule: read_until.induct)
  case (3 acc c evs)
  show ?case
  proof (cases "c = nl")
    case True
    with "3.prems" show ?thesis by auto
  next
    case False
    with "3.prems" have "read_until (acc @ [c]) evs = Got l rest" by simp
    with "3.IH" False obtain s where
      "l = (acc @ [c]) @ s" "evs = feed s @ rest" "s \<noteq> []" "last s = nl" "nl \<notin> set (butlast s)"
      by blast
    with False show ?thesis by (intro exI [of _ "c # s"]) auto
  qed
qed auto

lemma readline_Got_count:
  "readline evs = Got l rest \<Longrightarrow> count_list rest (Byte nl) < count_list evs (Byte nl)"
proof -
  assume h: "readline evs = Got l rest"
  from read_until_Got [OF h [unfolded readline_def]] obtain s
    where evs: "evs = feed s @ rest" and ne: "s \<noteq> []" and lst: "last s = nl"
    by blast
  from ne lst have "nl \<in> set s" using last_in_set by fastforce
  then have "Byte nl \<in> set (feed s)"
    by (simp add: feed_def)
  then have "0 < count_list (feed s) (Byte nl)"
    by (metis count_list_0_iff neq0_conv)
  with evs show ?thesis by simp
qed

lemma readline_Blocked:
  "readline evs = Blocked \<longleftrightarrow> Unplug \<notin> set evs \<and> Byte nl \<notin> set evs"
proof -
  have "read_until acc evs = Blocked \<longleftrightarrow> Unplug \<notin> set evs \<and> Byte nl \<notin> set evs" for acc
    by (induction acc evs rule: read_until.induct) auto
  then show ?thesis by (simp add: readline_def)
qed

text \<open>
  C15. What \<open>readline\<close> returns is a line of the device: the events it consumed are
  exactly the bytes of the line, which ends with the terminator and holds no other.
\<close>

theorem readline_Got_line:
  "readline evs = Got l rest \<Longrightarrow> evs = feed l @ rest \<and> l \<noteq> [] \<and> last l = nl \<and> nl \<notin> set (butlast l)"
  unfolding readline_def by (drule read_until_Got) auto

theorem readline_Got_line_witness:
  "readline (feed ''ab\<newline>c'') = Got ''ab\<newline>'' (feed ''c'') \<and>
   feed ''ab\<newline>c'' = feed ''ab\<newline>'' @ feed ''c'' \<and> ''ab\<newline>'' \<noteq> [] \<and>
   last ''ab\<newline>'' = nl \<and> nl \<notin> set (butlast ''ab\<newline>'')"
proof -
  have h: "readline (feed ''ab\<newline>c'') = Got ''ab\<newline>'' (feed ''c'')"
    by (simp add: readline_def)
  show ?thesis using h readline_Got_line [OF h] by blast
qed

end
