(* ===== verification/Scan.thy ===== *)
theory Scan
  imports Prelude
begin

text \<open>
  The scan record and its parse, lines 10 to 13 of \<open>src/driver.py\<close>:
  \<^verbatim>\<open>
    line = ser.readline().replace("-", "")
    half_one = line[:16]
    half_two = line[16:32]
    station_num = line[33]
  \<close>
  The record gathers the three values the script keeps in \<open>half_one\<close>,
  \<open>half_two\<close> and \<open>station_num\<close> under the names the request gives them
  (\<open>bag_id\<close>, \<open>user_id\<close>, \<open>scanner_id\<close>). The line is what \<open>readline\<close> returned,
  terminator included.
\<close>

record scan =
  bag_id :: string
  user_id :: string
  scanner_id :: string

definition strip_dashes :: "string \<Rightarrow> string" where
  "strip_dashes raw = py_replace raw ''-'' ''''"

definition parse_line :: "string \<Rightarrow> scan result" where
  "parse_line raw =
     (let line = strip_dashes raw;
          half_one = py_slice line None (Some 16);
          half_two = py_slice line (Some 16) (Some 32)
      in case py_getitem line 33 of
           Inl e \<Rightarrow> Inl e
         | Inr station_num \<Rightarrow>
             Inr \<lparr>bag_id = half_one, user_id = half_two, scanner_id = [station_num]\<rparr>)"

text \<open>
  A well-formed scan: what a successful parse always yields (fields of 16, 16 and 1
  characters, none of them a dash).
\<close>

definition wf_scan :: "scan \<Rightarrow> bool" where
  "wf_scan r \<longleftrightarrow>
     length (bag_id r) = 16 \<and> length (user_id r) = 16 \<and> length (scanner_id r) = 1 \<and>
     CHR ''-'' \<notin> set (bag_id r @ user_id r @ scanner_id r)"

text \<open>
  The fixed-width line a reader emits for a scan: the two 16-character halves, one
  character at offset 32 that the script skips, the scanner character, the terminator.
\<close>

definition scan_line :: "scan \<Rightarrow> char \<Rightarrow> string" where
  "scan_line r pad = bag_id r @ user_id r @ [pad] @ scanner_id r @ ''\<newline>''"

section \<open>Lemmas\<close>

lemma strip_dashes_filter [py_simps]: "strip_dashes raw = filter (\<lambda>c. c \<noteq> CHR ''-'') raw"
  by (simp add: strip_dashes_def py_simps)

lemma strip_dashes_no_dash: "CHR ''-'' \<notin> set (strip_dashes raw)"
  by (simp add: strip_dashes_filter)

lemma strip_dashes_idem: "strip_dashes (strip_dashes raw) = strip_dashes raw"
  by (simp add: strip_dashes_filter)

lemma strip_dashes_append: "strip_dashes (xs @ ys) = strip_dashes xs @ strip_dashes ys"
  by (simp add: strip_dashes_filter)

lemma strip_dashes_Cons:
  "strip_dashes (c # s) = (if c = CHR ''-'' then strip_dashes s else c # strip_dashes s)"
  by (simp add: strip_dashes_filter)

lemma strip_dashes_id: "CHR ''-'' \<notin> set s \<Longrightarrow> strip_dashes s = s"
  by (auto simp: strip_dashes_filter filter_id_conv)

text \<open>The parse as a function of the cleaned line.\<close>

lemma parse_line_clean:
  "parse_line raw =
     (let line = strip_dashes raw
      in if 33 < length line
         then Inr \<lparr>bag_id = take 16 line, user_id = take 16 (drop 16 line),
                   scanner_id = [line ! 33]\<rparr>
         else Inl IndexError)"
  by (simp add: parse_line_def Let_def py_simps)

lemmas parse_line_simps = parse_line_clean strip_dashes_filter

lemma parse_line_Inr_wf: "parse_line raw = Inr r \<Longrightarrow> wf_scan r"
proof -
  assume h: "parse_line raw = Inr r"
  let ?l = "strip_dashes raw"
  from h have len: "33 < length ?l"
    and r: "r = \<lparr>bag_id = take 16 ?l, user_id = take 16 (drop 16 ?l), scanner_id = [?l ! 33]\<rparr>"
    by (auto simp: parse_line_clean Let_def split: if_splits)
  have nd: "CHR ''-'' \<notin> set ?l" by (rule strip_dashes_no_dash)
  have "?l ! 33 \<in> set ?l" using len by simp
  with nd len show ?thesis
    by (auto simp: r wf_scan_def dest: in_set_takeD in_set_dropD)
qed

section \<open>The parse\<close>

text \<open>
  C2. The parse of a line read from the device: the dashes are removed first; if the
  cleaned line has more than 33 characters, the bag id is its first 16 characters, the
  user id the next 16, and the scanner id the single character at offset 33; otherwise
  \<open>line[33]\<close> raises \<open>IndexError\<close>.
\<close>

theorem parse_line_result:
  "parse_line raw =
     (let line = filter (\<lambda>c. c \<noteq> CHR ''-'') raw
      in if 33 < length line
         then Inr \<lparr>bag_id = take 16 line, user_id = take 16 (drop 16 line), scanner_id = [line ! 33]\<rparr>
         else Inl IndexError)"
  by (simp add: parse_line_def Let_def py_simps)

text \<open>
  C6. Round trip: a well-formed scan written as a fixed-width reader line (any
  character but a dash at offset 32, then the terminator) parses back to itself.
\<close>

theorem parse_scan_line: "wf_scan r \<Longrightarrow> pad \<noteq> CHR ''-'' \<Longrightarrow> parse_line (scan_line r pad) = Inr r"
proof -
  assume wf: "wf_scan r" and pad: "pad \<noteq> CHR ''-''"
  let ?l = "bag_id r @ user_id r @ [pad] @ scanner_id r @ ''\<newline>''"
  have clean: "strip_dashes (scan_line r pad) = ?l"
    unfolding scan_line_def using wf pad by (auto simp: wf_scan_def intro!: strip_dashes_id)
  from wf obtain s where s: "scanner_id r = [s]"
    by (auto simp: wf_scan_def length_Suc_conv)
  from wf have "length (bag_id r) = 16" "length (user_id r) = 16"
    by (simp_all add: wf_scan_def)
  then show ?thesis
    by (simp add: parse_line_clean clean s nth_append)
qed

theorem parse_scan_line_witness:
  "parse_line (scan_line \<lparr>bag_id = ''1234567890123456'', user_id = ''ABCDEFGHIJKLMNOP'',
      scanner_id = ''Q''\<rparr> CHR ''x'') =
   Inr \<lparr>bag_id = ''1234567890123456'', user_id = ''ABCDEFGHIJKLMNOP'', scanner_id = ''Q''\<rparr>"
  by (rule parse_scan_line) (simp_all add: wf_scan_def)


text \<open>
  C8. The character at offset 32 of the cleaned line is never read: two lines that
  differ only there parse alike.
\<close>

theorem parse_line_skips_32:
  assumes "length (strip_dashes p) = 32" "x \<noteq> CHR ''-''" "y \<noteq> CHR ''-''"
  shows "parse_line (p @ x # q) = parse_line (p @ y # q)"
  using assms by (simp add: parse_line_clean strip_dashes_append strip_dashes_Cons Let_def nth_append)

theorem parse_line_skips_32_witness:
  "parse_line (''1234567890123456ABCDEFGHIJKLMNOP'' @ CHR ''x'' # ''Z\<newline>'') =
   parse_line (''1234567890123456ABCDEFGHIJKLMNOP'' @ CHR ''y'' # ''Z\<newline>'')"
  by (rule parse_line_skips_32) (simp_all add: strip_dashes_filter)

text \<open>
  C9. Dashes do not count: removing a dash anywhere in a raw line leaves the parse
  unchanged, so the fields are cut from the cleaned line.
\<close>

theorem parse_line_dash: "parse_line (xs @ CHR ''-'' # ys) = parse_line (xs @ ys)"
  by (simp add: parse_line_def strip_dashes_filter)

end
