(* ===== verification/Request.thy ===== *)
theory Request
  imports Prelude
begin

text \<open>
  The outbound request of \<open>src/driver.py\<close>, lines 17 to 28: the \<open>headers\<close> dict,
  the nested \<open>data\<close> dict, and the call
  \<open>requests.post(url = "http://localhost:3000/bags/" + str(half_one), headers = headers,
  json = data)\<close>. A Python dict of strings is a JSON object, modelled as an association
  list in the order the literal writes its keys; the keys are distinct, so lookups do not
  depend on that order (Python 2 serialises a dict in hash order). The request is a record
  of method, URL, headers and JSON body; the server's answer is a status code and a text.
\<close>

datatype json = JStr string | JObj "(string \<times> json) list"

definition json_field :: "json \<Rightarrow> string \<Rightarrow> json option" where
  "json_field j k = (case j of JObj kvs \<Rightarrow> map_of kvs k | JStr _ \<Rightarrow> None)"

fun json_path :: "json \<Rightarrow> string list \<Rightarrow> json option" where
  "json_path j [] = Some j"
| "json_path j (k # ks) = (case json_field j k of None \<Rightarrow> None | Some j' \<Rightarrow> json_path j' ks)"

definition request_headers :: "(string \<times> string) list" where
  "request_headers = [(''Content-Type'', ''application/json'')]"

definition request_data :: "string \<Rightarrow> string \<Rightarrow> string \<Rightarrow> json" where
  "request_data half_one half_two station_num =
     JObj [(''bag'', JObj [(''bag_id'', JStr half_one), (''user_id'', JStr half_two)]),
           (''scanner_id'', JStr station_num)]"

definition base_url :: string where
  "base_url = ''http://localhost:3000/bags/''"

record http_request =
  req_method :: string
  req_url :: string
  req_headers :: "(string \<times> string) list"
  req_json :: json

record http_response =
  status_code :: nat
  resp_text :: string

text \<open>\<open>requests.post(url, headers, json)\<close>: the request it sends.\<close>

definition post_request :: "string \<Rightarrow> (string \<times> string) list \<Rightarrow> json \<Rightarrow> http_request" where
  "post_request url hdrs data =
     \<lparr>req_method = ''POST'', req_url = url, req_headers = hdrs, req_json = data\<rparr>"

text \<open>The request the script builds from the three fields (lines 17 to 28 together).\<close>

definition bag_request :: "string \<Rightarrow> string \<Rightarrow> string \<Rightarrow> http_request" where
  "bag_request half_one half_two station_num =
     post_request (base_url @ half_one) request_headers (request_data half_one half_two station_num)"

text \<open>
  A well-formed request, checked on the request alone: a POST with the JSON header,
  whose URL ends in the body's \<open>bag_id\<close>, with fields of 16, 16 and 1 characters.
\<close>

definition wf_request :: "http_request \<Rightarrow> bool" where
  "wf_request q \<longleftrightarrow>
     req_method q = ''POST'' \<and> map_of (req_headers q) ''Content-Type'' = Some ''application/json'' \<and>
     (case (json_path (req_json q) [''bag'', ''bag_id''], json_path (req_json q) [''bag'', ''user_id''],
            json_path (req_json q) [''scanner_id'']) of
        (Some (JStr b), Some (JStr u), Some (JStr s)) \<Rightarrow>
          req_url q = base_url @ b \<and> length b = 16 \<and> length u = 16 \<and> length s = 1
      | _ \<Rightarrow> False)"

section \<open>Lemmas\<close>

lemma json_path_request_data [simp]:
  "json_path (request_data b u s) [''bag'', ''bag_id''] = Some (JStr b)"
  "json_path (request_data b u s) [''bag'', ''user_id''] = Some (JStr u)"
  "json_path (request_data b u s) [''scanner_id''] = Some (JStr s)"
  by (simp_all add: request_data_def json_field_def)

lemma bag_request_fields [simp]:
  "req_method (bag_request b u s) = ''POST''"
  "req_url (bag_request b u s) = base_url @ b"
  "req_headers (bag_request b u s) = request_headers"
  "req_json (bag_request b u s) = request_data b u s"
  by (simp_all add: bag_request_def post_request_def)

lemma wf_bag_request:
  "wf_request (bag_request b u s) \<longleftrightarrow> length b = 16 \<and> length u = 16 \<and> length s = 1"
  by (simp add: wf_request_def request_headers_def del: json_path.simps)

end
