(* ===== verification/PyDict.thy ===== *)
theory PyDict
  imports Prelude "HOL-Library.Word" "HOL-Library.Multiset"
begin

unbundle bit_operations_syntax

text \<open>
  CPython 2.7's dictionaries with string keys, as far as the script's dict displays use
  them: the string hash, the small table of 8 slots, the probe sequence, insertion by
  \<open>STORE_MAP\<close> in source order, and iteration in slot order, which is the order in
  which \<open>repr\<close> and \<open>json.dumps\<close> write the keys. The platform is LP64 (a
  \<open>long\<close> and a \<open>size_t\<close> have 64 bits) and hash randomisation is off, as it is
  by default in Python 2.7; arithmetic wraps modulo \<open>2^64\<close>, so hashes and probe
  indices are \<open>64 word\<close>s. A dict that would grow past its small table (a sixth key)
  is resized by CPython; that step is not modelled and gives \<open>None\<close>.
\<close>

section \<open>The string hash\<close>

text \<open>
  \<open>string_hash\<close>: \<open>x = s[0] << 7\<close>, then \<open>x = (1000003 * x) ^ c\<close> for every byte
  \<open>c\<close>, then \<open>x ^= len\<close>; \<open>-1\<close> is reserved for errors and becomes \<open>-2\<close>.
\<close>

fun hash_chars :: "64 word \<Rightarrow> string \<Rightarrow> 64 word" where
  "hash_chars x [] = x"
| "hash_chars x (c # cs) = hash_chars ((1000003 * x) XOR of_char c) cs"

definition str_hash :: "string \<Rightarrow> 64 word" where
  "str_hash s =
     (case s of
        [] \<Rightarrow> 0
      | c # _ \<Rightarrow>
          (let x = hash_chars (push_bit 7 (of_char c)) s XOR word_of_nat (length s)
           in if x = - 1 then - 2 else x))"

section \<open>The table\<close>

type_synonym 'v table = "(string \<times> 'v) option list"

definition empty_table :: "'v table" where
  "empty_table = [None, None, None, None, None, None, None, None]"

definition slot_of :: "64 word \<Rightarrow> nat" where
  "slot_of i = unat (i AND 7)"

text \<open>
  \<open>lookdict_string\<close>: the first slot is \<open>hash & mask\<close>; after a collision,
  \<open>i = 5 * i + perturb + 1\<close> and \<open>perturb >>= 5\<close>, with \<open>perturb\<close> starting at the
  hash. The search stops at an empty slot or at the slot of the key. Fuel bounds the
  search; \<open>probe_fuel\<close> is enough whenever the table has an empty slot
  (\<open>probe_finds\<close> below).
\<close>

fun probe :: "nat \<Rightarrow> 'v table \<Rightarrow> string \<Rightarrow> 64 word \<Rightarrow> 64 word \<Rightarrow> nat option" where
  "probe n t k i perturb =
     (case n of
        0 \<Rightarrow> None
      | Suc m \<Rightarrow>
          (let i' = 5 * i + perturb + 1; j = slot_of i'
           in case t ! j of
                None \<Rightarrow> Some j
              | Some (k', _) \<Rightarrow> if k' = k then Some j else probe m t k i' (drop_bit 5 perturb)))"

definition probe_fuel :: nat where
  "probe_fuel = 21"

definition find_slot :: "'v table \<Rightarrow> string \<Rightarrow> nat option" where
  "find_slot t k =
     (let h = str_hash k; j = slot_of h
      in case t ! j of
           None \<Rightarrow> Some j
         | Some (k', _) \<Rightarrow> if k' = k then Some j else probe probe_fuel t k h h)"

text \<open>
  \<open>PyDict_SetItem\<close>: store in the slot found; when the key is new and the table is then
  two thirds full, CPython resizes it, which this model does not cover.
\<close>

definition fill :: "'v table \<Rightarrow> nat" where
  "fill t = length (filter (\<lambda>e. e \<noteq> None) t)"

definition dict_setitem :: "'v table \<Rightarrow> string \<Rightarrow> 'v \<Rightarrow> 'v table option" where
  "dict_setitem t k v =
     (case find_slot t k of
        None \<Rightarrow> None
      | Some j \<Rightarrow>
          (let t' = t[j := Some (k, v)]
           in if t ! j = None \<and> 3 * fill t' \<ge> 2 * length t then None else Some t'))"

definition dict_getitem :: "'v table \<Rightarrow> string \<Rightarrow> 'v option" where
  "dict_getitem t k =
     (case find_slot t k of
        None \<Rightarrow> None
      | Some j \<Rightarrow> (case t ! j of None \<Rightarrow> None | Some (_, v) \<Rightarrow> Some v))"

text \<open>A dict display \<open>{k1: v1, k2: v2, ...}\<close>: \<open>BUILD_MAP\<close>, then one \<open>STORE_MAP\<close> per pair in source order.\<close>

fun dict_build :: "'v table \<Rightarrow> (string \<times> 'v) list \<Rightarrow> 'v table option" where
  "dict_build t [] = Some t"
| "dict_build t ((k, v) # kvs) =
     (case dict_setitem t k v of None \<Rightarrow> None | Some t' \<Rightarrow> dict_build t' kvs)"

text \<open>Iteration (\<open>dict.items()\<close>, \<open>repr\<close>, \<open>json.dumps\<close>) walks the slots in index order.\<close>

definition dict_items :: "'v table \<Rightarrow> (string \<times> 'v) list" where
  "dict_items t = map the (filter (\<lambda>e. e \<noteq> None) t)"

text \<open>
  The slots the probe visits once \<open>perturb\<close> has shifted down to 0: then
  \<open>i = 5 * i + 1\<close>, and modulo 8 the slot follows \<open>s \<mapsto> (5 * s + 1) mod 8\<close>.
\<close>

fun visits :: "nat \<Rightarrow> nat \<Rightarrow> nat list" where
  "visits n s = (case n of 0 \<Rightarrow> [] | Suc m \<Rightarrow> (5 * s + 1) mod 8 # visits m ((5 * s + 1) mod 8))"

text \<open>
  The invariant of a table: 8 slots, and every stored key is found by a lookup at the
  slot where it is stored.
\<close>

definition dict_inv :: "'v table \<Rightarrow> bool" where
  "dict_inv t \<longleftrightarrow>
     length t = 8 \<and>
     list_all (\<lambda>j. case t ! j of None \<Rightarrow> True | Some (k, _) \<Rightarrow> find_slot t k = Some j) [0..<8]"

definition py_order :: "(string \<times> 'v) list \<Rightarrow> (string \<times> 'v) list option" where
  "py_order kvs = map_option dict_items (dict_build empty_table kvs)"

text \<open>A slot the search returns is empty or holds the key.\<close>

definition slot_ok :: "'v table \<Rightarrow> string \<Rightarrow> nat \<Rightarrow> bool" where
  "slot_ok t k j \<longleftrightarrow> j < 8 \<and> (case t ! j of None \<Rightarrow> True | Some (k', _) \<Rightarrow> k' = k)"

declare probe.simps [simp del] visits.simps [simp del]

section \<open>Lemmas\<close>

lemma probe_0 [simp]: "probe 0 t k i p = None"
  by (simp add: probe.simps)

lemma probe_Suc:
  "probe (Suc m) t k i p =
     (let i' = 5 * i + p + 1; j = slot_of i'
      in case t ! j of
           None \<Rightarrow> Some j
         | Some (k', _) \<Rightarrow> if k' = k then Some j else probe m t k i' (drop_bit 5 p))"
  by (simp add: probe.simps)

lemma visits_Suc [simp]: "visits (Suc m) s = (5 * s + 1) mod 8 # visits m ((5 * s + 1) mod 8)"
  by (simp add: visits.simps)

lemma slot_of_mod: "slot_of x = unat x mod 8"
proof -
  have "(x AND 7) = take_bit 3 x"
    by (simp add: take_bit_eq_mask mask_eq_exp_minus_1)
  then show ?thesis by (simp add: slot_of_def take_bit_eq_mod unat_mod)
qed

lemma slot_of_lt [simp]: "slot_of x < 8"
  by (simp add: slot_of_mod)

lemma suc5_mod8: "Suc (5 * a) mod 8 = Suc (5 * (a mod 8)) mod (8::nat)"
proof -
  have "Suc (5 * (a mod 8)) mod 8 = Suc (5 * (a mod 8) mod 8) mod 8" by (simp add: mod_Suc_eq)
  also have "5 * (a mod 8) mod 8 = 5 * a mod (8::nat)" by (simp add: mod_mult_right_eq)
  also have "Suc (5 * a mod 8) mod 8 = Suc (5 * a) mod 8" by (simp add: mod_Suc_eq)
  finally show ?thesis by simp
qed

lemma slot_of_step: "slot_of (5 * i + 0 + 1) = (5 * slot_of i + 1) mod 8"
proof -
  have "unat (5 * i + 1) = (5 * unat i + 1) mod 2 ^ 64"
    by (simp add: unat_word_ariths mod_Suc_eq)
  then have "unat (5 * i + 1) mod 8 = (5 * unat i + 1) mod 8"
    by (simp add: mod_mod_cancel)
  then show ?thesis using suc5_mod8 by (simp add: slot_of_mod)
qed

lemma probe_unperturbed_None:
  "probe n t k i 0 = None \<Longrightarrow> \<forall>j\<in>set (visits n (slot_of i)). t ! j \<noteq> None"
proof (induction n arbitrary: i)
  case 0
  then show ?case by (simp add: visits.simps)
next
  case (Suc n)
  let ?i' = "5 * i + 0 + 1"
  have s: "slot_of ?i' = (5 * slot_of i + 1) mod 8" by (rule slot_of_step)
  show ?case
  proof (cases "t ! slot_of ?i'")
    case None
    with Suc.prems show ?thesis by (simp add: probe_Suc Let_def)
  next
    case (Some e)
    obtain k' v' where e: "e = (k', v')" by (cases e)
    with Some Suc.prems have "k' \<noteq> k" and rest: "probe n t k ?i' 0 = None"
      by (auto simp: probe_Suc Let_def split: if_splits)
    from Suc.IH [OF rest] Some s show ?thesis by simp
  qed
qed

lemma visits_all: "s < 8 \<Longrightarrow> j < 8 \<Longrightarrow> j \<in> set (visits 8 s)"
proof -
  assume "s < 8" "j < 8"
  then have "s \<in> {0, 1, 2, 3, 4, 5, 6, 7}" "j \<in> {0, 1, 2, 3, 4, 5, 6, 7}"
    by auto
  then show ?thesis by (auto simp: visits.simps)
qed

lemma probe_unperturbed_full:
  "probe 8 t k i 0 = None \<Longrightarrow> length t = 8 \<Longrightarrow> None \<notin> set t"
proof
  assume none: "probe 8 t k i 0 = None" and len: "length t = 8" and "None \<in> set t"
  then obtain j where j: "j < 8" "t ! j = None" by (auto simp: in_set_conv_nth)
  have "j \<in> set (visits 8 (slot_of i))" using j(1) by (simp add: visits_all)
  with probe_unperturbed_None [OF none] j(2) show False by blast
qed

lemma probe_shift:
  "probe (m + n) t k i p = None \<Longrightarrow> \<exists>i'. probe n t k i' (drop_bit (5 * m) p) = None"
proof (induction m arbitrary: i p)
  case 0
  then show ?case by auto
next
  case (Suc m)
  let ?i' = "5 * i + p + 1"
  from Suc.prems have rest: "probe (m + n) t k ?i' (drop_bit 5 p) = None"
    by (auto simp: probe_Suc Let_def split: option.splits if_splits)
  from Suc.IH [OF rest] obtain i' where "probe n t k i' (drop_bit (5 * m) (drop_bit 5 p)) = None"
    by blast
  then show ?case by (auto simp: ac_simps)
qed

lemma probe_finds: "length t = 8 \<Longrightarrow> None \<in> set t \<Longrightarrow> probe probe_fuel t k i p \<noteq> None"
proof
  assume len: "length t = 8" and free: "None \<in> set t" and none: "probe probe_fuel t k i p = None"
  from none have "probe (13 + 8) t k i p = None" by (simp add: probe_fuel_def)
  then obtain i' where "probe 8 t k i' (drop_bit (5 * 13) p) = None"
    by (blast dest: probe_shift)
  then have "probe 8 t k i' 0 = None" by simp
  from this len have "None \<notin> set t" by (rule probe_unperturbed_full)
  with free show False by contradiction
qed

lemma probe_Some: "probe n t k i p = Some j \<Longrightarrow> slot_ok t k j"
proof (induction n arbitrary: i p)
  case (Suc n)
  then show ?case
    by (auto simp: probe_Suc Let_def slot_ok_def split: option.splits if_splits)
qed simp

lemma find_slot_Some: "find_slot t k = Some j \<Longrightarrow> slot_ok t k j"
  unfolding find_slot_def Let_def
  by (auto simp: slot_ok_def split: option.splits if_splits dest!: probe_Some [unfolded slot_ok_def])

lemma find_slot_exists: "length t = 8 \<Longrightarrow> None \<in> set t \<Longrightarrow> \<exists>j. find_slot t k = Some j"
  using probe_finds [of t k "str_hash k" "str_hash k"]
  by (auto simp: find_slot_def Let_def split: option.splits)

text \<open>
  Changing a slot that a search passes over without stopping, to a value it would
  still pass over, does not change the search.
\<close>

lemma probe_update:
  assumes "probe n t k i p = Some j"
    and "\<And>s. s \<noteq> j \<Longrightarrow> t ! s = None \<or> t' ! s = t ! s \<or> (t' ! s \<noteq> None \<and> fst (the (t' ! s)) \<noteq> k)"
    and "slot_ok t' k j"
  shows "probe n t' k i p = Some j"
  using assms(1)
proof (induction n arbitrary: i p)
  case (Suc n)
  let ?i' = "5 * i + p + 1"
  show ?case
  proof (cases "slot_of ?i' = j")
    case True
    with assms(3) show ?thesis by (auto simp: probe_Suc Let_def slot_ok_def split: option.splits)
  next
    case False
    with Suc.prems have go: "probe n t k ?i' (drop_bit 5 p) = Some j"
      and stored: "t ! slot_of ?i' \<noteq> None" "fst (the (t ! slot_of ?i')) \<noteq> k"
      by (auto simp: probe_Suc Let_def split: option.splits if_splits)
    from assms(2) [OF False] stored have "t' ! slot_of ?i' \<noteq> None" "fst (the (t' ! slot_of ?i')) \<noteq> k"
      by auto
    then show ?thesis using Suc.IH [OF go] by (auto simp: probe_Suc Let_def split: option.splits)
  qed
qed simp

lemma find_slot_update:
  assumes "find_slot t k = Some j"
    and "\<And>s. s \<noteq> j \<Longrightarrow> t ! s = None \<or> t' ! s = t ! s \<or> (t' ! s \<noteq> None \<and> fst (the (t' ! s)) \<noteq> k)"
    and "slot_ok t' k j"
  shows "find_slot t' k = Some j"
proof (cases "slot_of (str_hash k) = j")
  case True
  with assms(3) show ?thesis by (auto simp: find_slot_def Let_def slot_ok_def split: option.splits)
next
  case False
  with assms(1) have go: "probe probe_fuel t k (str_hash k) (str_hash k) = Some j"
    and stored: "t ! slot_of (str_hash k) \<noteq> None" "fst (the (t ! slot_of (str_hash k))) \<noteq> k"
    by (auto simp: find_slot_def Let_def split: option.splits if_splits)
  from assms(2) [OF False] stored
  have "t' ! slot_of (str_hash k) \<noteq> None" "fst (the (t' ! slot_of (str_hash k))) \<noteq> k"
    by auto
  then show ?thesis using probe_update [OF go assms(2,3)]
    by (auto simp: find_slot_def Let_def split: option.splits)
qed

lemma dict_setitem_Some:
  "dict_setitem t k v = Some t' \<Longrightarrow> \<exists>j. find_slot t k = Some j \<and> t' = t[j := Some (k, v)]"
  by (auto simp: dict_setitem_def Let_def split: option.splits if_splits)

lemma find_slot_after_set:
  "find_slot t k = Some j \<Longrightarrow> length t = 8 \<Longrightarrow> find_slot (t[j := Some (k, v)]) k = Some j"
proof -
  assume fs: "find_slot t k = Some j" and len: "length t = 8"
  from find_slot_Some [OF fs] have j: "j < 8" by (simp add: slot_ok_def)
  show ?thesis
  proof (rule find_slot_update [OF fs])
    show "slot_ok (t[j := Some (k, v)]) k j" using j len by (simp add: slot_ok_def)
  qed simp
qed

lemma dict_inv_iff:
  "dict_inv t \<longleftrightarrow> length t = 8 \<and>
     (\<forall>j k v. j < 8 \<longrightarrow> t ! j = Some (k, v) \<longrightarrow> find_slot t k = Some j)"
  by (auto simp: dict_inv_def list_all_iff split: option.splits)

lemma empty_table_replicate: "empty_table = replicate 8 None"
  by (simp add: empty_table_def numeral_eq_Suc)

lemma dict_inv_empty: "dict_inv empty_table"
  by (simp add: dict_inv_iff empty_table_replicate)

lemma dict_setitem_inv: "dict_inv t \<Longrightarrow> dict_setitem t k v = Some t' \<Longrightarrow> dict_inv t'"
proof -
  assume inv: "dict_inv t" and set: "dict_setitem t k v = Some t'"
  from inv have len: "length t = 8"
    and found: "\<And>j k v. j < 8 \<Longrightarrow> t ! j = Some (k, v) \<Longrightarrow> find_slot t k = Some j"
    by (auto simp: dict_inv_iff)
  from dict_setitem_Some [OF set] obtain j where fs: "find_slot t k = Some j"
    and t': "t' = t[j := Some (k, v)]" by blast
  from find_slot_Some [OF fs] have j: "j < 8" and old: "case t ! j of None \<Rightarrow> True | Some (k', _) \<Rightarrow> k' = k"
    by (simp_all add: slot_ok_def)
  have "find_slot t' k2 = Some j2" if j2: "j2 < 8" and at: "t' ! j2 = Some (k2, v2)" for j2 k2 v2
  proof (cases "j2 = j")
    case True
    with at len j have "k2 = k" by (simp add: t')
    with True fs len show ?thesis unfolding t' by (simp add: find_slot_after_set)
  next
    case False
    with at have at_t: "t ! j2 = Some (k2, v2)" by (simp add: t')
    from found [OF j2 at_t] have fs2: "find_slot t k2 = Some j2" .
    have "k \<noteq> k2"
    proof
      assume "k = k2"
      with fs fs2 False show False by simp
    qed
    show ?thesis
    proof (rule find_slot_update [OF fs2])
      fix s assume "s \<noteq> j2"
      show "t ! s = None \<or> t' ! s = t ! s \<or> (t' ! s \<noteq> None \<and> fst (the (t' ! s)) \<noteq> k2)"
        using \<open>k \<noteq> k2\<close> j len by (cases "s = j") (simp_all add: t')
    next
      show "slot_ok t' k2 j2" using j2 at by (simp add: slot_ok_def)
    qed
  qed
  with len show ?thesis by (auto simp: dict_inv_iff t')
qed

lemma dict_inv_keys_unique:
  "dict_inv t \<Longrightarrow> j1 < 8 \<Longrightarrow> j2 < 8 \<Longrightarrow> t ! j1 = Some (k, v1) \<Longrightarrow> t ! j2 = Some (k, v2) \<Longrightarrow> j1 = j2"
proof -
  assume inv: "dict_inv t" and j: "j1 < 8" "j2 < 8" and at: "t ! j1 = Some (k, v1)" "t ! j2 = Some (k, v2)"
  from inv have found: "\<And>j k v. j < 8 \<Longrightarrow> t ! j = Some (k, v) \<Longrightarrow> find_slot t k = Some j"
    by (auto simp: dict_inv_iff)
  from found [OF j(1) at(1)] found [OF j(2) at(2)] show "j1 = j2" by simp
qed

lemma dict_build_inv: "dict_inv t \<Longrightarrow> dict_build t kvs = Some t' \<Longrightarrow> dict_inv t'"
proof (induction t kvs rule: dict_build.induct)
  case (2 t k v kvs)
  then show ?case by (auto split: option.splits dest: dict_setitem_inv)
qed simp

lemma fill_update:
  "j < length t \<Longrightarrow> fill (t[j := Some x]) = (if t ! j = None then Suc (fill t) else fill t)"
proof (induction t arbitrary: j)
  case (Cons e t)
  then show ?case by (cases j) (auto simp: fill_def)
qed simp

lemma free_slot: "fill t < length t \<Longrightarrow> None \<in> set t"
proof (rule ccontr)
  assume "fill t < length t" "None \<notin> set t"
  then have "\<forall>e\<in>set t. e \<noteq> None" by (metis (full_types))
  then have "filter (\<lambda>e. e \<noteq> None) t = t" by (rule filter_True)
  with \<open>fill t < length t\<close> show False by (simp add: fill_def)
qed

lemma dict_setitem_small:
  assumes "dict_inv t" and "fill t \<le> 4"
  shows "\<exists>t'. dict_setitem t k v = Some t' \<and> fill t' \<le> Suc (fill t)"
proof -
  from assms(1) have len: "length t = 8" by (simp add: dict_inv_iff)
  with assms(2) have "None \<in> set t" by (intro free_slot) simp
  with len obtain j where fs: "find_slot t k = Some j" by (blast dest: find_slot_exists)
  from find_slot_Some [OF fs] have j: "j < 8" by (simp add: slot_ok_def)
  let ?t' = "t[j := Some (k, v)]"
  have fill': "fill ?t' \<le> Suc (fill t)" using j len by (simp add: fill_update)
  with assms(2) len have "\<not> 2 * length t \<le> 3 * fill ?t'" by simp
  with fs fill' show ?thesis by (simp add: dict_setitem_def Let_def)
qed

lemma dict_build_small: "dict_inv t \<Longrightarrow> fill t + length kvs \<le> 5 \<Longrightarrow> \<exists>t'. dict_build t kvs = Some t'"
proof (induction t kvs rule: dict_build.induct)
  case (1 t)
  then show ?case by simp
next
  case (2 t k v kvs)
  from "2.prems" obtain t' where set: "dict_setitem t k v = Some t'" and fill': "fill t' \<le> Suc (fill t)"
    using dict_setitem_small by fastforce
  have "dict_inv t'" using "2.prems"(1) set by (rule dict_setitem_inv)
  moreover have "fill t' + length kvs \<le> 5" using "2.prems"(2) fill' by simp
  ultimately obtain t'' where "dict_build t' kvs = Some t''" using "2.IH" [OF set] by blast
  with set show ?case by simp
qed

lemma set_dict_items: "set (dict_items t) = {kv. Some kv \<in> set t}"
  by (force simp: dict_items_def)

lemma dict_setitem_items:
  "dict_setitem t k v = Some t' \<Longrightarrow> set (dict_items t') \<subseteq> insert (k, v) (set (dict_items t))"
  by (auto simp: set_dict_items dest!: dict_setitem_Some dest: set_update_subset_insert [THEN subsetD])

lemma dict_build_items:
  "dict_build t kvs = Some t' \<Longrightarrow> set (dict_items t') \<subseteq> set (dict_items t) \<union> set kvs"
proof (induction t kvs rule: dict_build.induct)
  case (2 t k v kvs)
  then show ?case by (fastforce split: option.splits dest: dict_setitem_items)
qed simp

lemma py_order_subset: "py_order kvs = Some items \<Longrightarrow> set items \<subseteq> set kvs"
proof -
  assume "py_order kvs = Some items"
  then obtain t where b: "dict_build empty_table kvs = Some t" and items: "items = dict_items t"
    by (auto simp: py_order_def)
  have "set (dict_items (empty_table :: 'a table)) = {}"
    by (simp add: empty_table_def dict_items_def)
  with dict_build_items [OF b] items show ?thesis by auto
qed


lemma dict_items_simps [simp]:
  "dict_items [] = []" "dict_items (None # t) = dict_items t" "dict_items (Some kv # t) = kv # dict_items t"
  by (simp_all add: dict_items_def)

lemma distinct_keys_items:
  "(\<And>j1 j2 k v1 v2. j1 < length t \<Longrightarrow> j2 < length t \<Longrightarrow> t ! j1 = Some (k, v1) \<Longrightarrow> t ! j2 = Some (k, v2) \<Longrightarrow> j1 = j2)
   \<Longrightarrow> distinct (map fst (dict_items t))"
proof (induction t)
  case (Cons e t)
  have ih: "distinct (map fst (dict_items t))"
    using Cons.prems [of "Suc j1" "Suc j2" for j1 j2] by (intro Cons.IH) force
  show ?case
  proof (cases e)
    case (Some kv)
    obtain k v where kv: "kv = (k, v)" by (cases kv)
    have "k \<notin> fst ` set (dict_items t)"
    proof
      assume "k \<in> fst ` set (dict_items t)"
      then obtain v' where "Some (k, v') \<in> set t" by (auto simp: set_dict_items)
      then obtain j where "j < length t" "t ! j = Some (k, v')" by (auto simp: in_set_conv_nth)
      with Cons.prems [of 0 "Suc j" k v v'] Some kv show False by simp
    qed
    with ih Some kv show ?thesis by simp
  qed (simp add: ih)
qed simp

lemma dict_inv_distinct:
  assumes "dict_inv t" shows "distinct (map fst (dict_items t))"
proof (rule distinct_keys_items)
  fix j1 j2 k v1 v2
  assume "j1 < length t" "j2 < length t" "t ! j1 = Some (k, v1)" "t ! j2 = Some (k, v2)"
  moreover from assms have "length t = 8" by (simp add: dict_inv_iff)
  ultimately show "j1 = j2" using dict_inv_keys_unique [OF assms] by simp
qed

lemma set_update_None:
  "j < length t \<Longrightarrow> t ! j = None \<Longrightarrow> Some kv \<in> set (t[j := Some x]) \<longleftrightarrow> kv = x \<or> Some kv \<in> set t"
  by (auto simp: in_set_conv_nth nth_list_update split: if_splits) (metis option.distinct(1))+

lemma dict_setitem_items_new:
  assumes inv: "dict_inv t" and new: "k \<notin> fst ` set (dict_items t)" and set: "dict_setitem t k v = Some t'"
  shows "set (dict_items t') = insert (k, v) (set (dict_items t))"
proof -
  from dict_setitem_Some [OF set] obtain j where fs: "find_slot t k = Some j"
    and t': "t' = t[j := Some (k, v)]" by blast
  from find_slot_Some [OF fs] have j: "j < 8" and ok: "case t ! j of None \<Rightarrow> True | Some (k', _) \<Rightarrow> k' = k"
    by (simp_all add: slot_ok_def)
  from inv have len: "length t = 8" by (simp add: dict_inv_iff)
  have "t ! j = None"
  proof (cases "t ! j")
    case (Some kv)
    with ok obtain v' where "t ! j = Some (k, v')" by (cases kv) auto
    with j len have "Some (k, v') \<in> set t" by (metis nth_mem)
    with new show ?thesis by (force simp: set_dict_items)
  qed
  with j len show ?thesis by (auto simp: t' set_dict_items set_update_None)
qed

lemma dict_build_items_eq:
  "dict_inv t \<Longrightarrow> distinct (map fst kvs) \<Longrightarrow> fst ` set kvs \<inter> fst ` set (dict_items t) = {} \<Longrightarrow>
   dict_build t kvs = Some t' \<Longrightarrow> set (dict_items t') = set (dict_items t) \<union> set kvs"
proof (induction t kvs rule: dict_build.induct)
  case (2 t k v kvs)
  from "2.prems"(4) obtain t1 where set: "dict_setitem t k v = Some t1" and rest: "dict_build t1 kvs = Some t'"
    by (auto split: option.splits)
  have new: "k \<notin> fst ` set (dict_items t)" using "2.prems"(3) by auto
  have items1: "set (dict_items t1) = insert (k, v) (set (dict_items t))"
    by (rule dict_setitem_items_new [OF "2.prems"(1) new set])
  have inv1: "dict_inv t1" by (rule dict_setitem_inv [OF "2.prems"(1) set])
  have "fst ` set kvs \<inter> fst ` set (dict_items t1) = {}"
    using "2.prems"(2,3) items1 by auto
  with "2.IH" [OF set inv1 _ _ rest] "2.prems"(2) items1 show ?case by auto
qed simp

lemma py_order_inv:
  "py_order kvs = Some items \<Longrightarrow> \<exists>t. dict_build empty_table kvs = Some t \<and> dict_inv t \<and> items = dict_items t"
  by (auto simp: py_order_def intro: dict_build_inv [OF dict_inv_empty])


lemma fill_items: "fill t = length (dict_items t)"
  by (simp add: fill_def dict_items_def)

lemma dict_setitem_fill:
  "length t = 8 \<Longrightarrow> fill t \<le> 5 \<Longrightarrow> dict_setitem t k v = Some t' \<Longrightarrow> fill t' \<le> 5"
proof -
  assume len: "length t = 8" and f: "fill t \<le> 5" and set: "dict_setitem t k v = Some t'"
  from dict_setitem_Some [OF set] obtain j where fs: "find_slot t k = Some j"
    and t': "t' = t[j := Some (k, v)]" by blast
  from find_slot_Some [OF fs] have j: "j < 8" by (simp add: slot_ok_def)
  show "fill t' \<le> 5"
  proof (cases "t ! j = None")
    case True
    with set fs t' len show ?thesis by (auto simp: dict_setitem_def Let_def split: if_splits)
  next
    case False
    with j len f show ?thesis by (auto simp: t' fill_update)
  qed
qed

lemma dict_build_fill:
  "length t = 8 \<Longrightarrow> fill t \<le> 5 \<Longrightarrow> dict_build t kvs = Some t' \<Longrightarrow> length t' = 8 \<and> fill t' \<le> 5"
proof (induction t kvs rule: dict_build.induct)
  case (2 t k v kvs)
  then obtain t1 where s: "dict_setitem t k v = Some t1" and r: "dict_build t1 kvs = Some t'"
    by (auto split: option.splits)
  from dict_setitem_Some [OF s] obtain j where "t1 = t[j := Some (k, v)]" by blast
  then have "length t1 = 8" using "2.prems"(1) by simp
  moreover have "fill t1 \<le> 5" using dict_setitem_fill [OF "2.prems"(1,2) s] .
  ultimately show ?case using "2.IH" [OF s] r by blast
qed simp

section \<open>Properties of the dictionary\<close>



text \<open>
  C23. A dict display with distinct keys iterates over exactly its pairs, each once:
  the order \<open>repr\<close> and \<open>json.dumps\<close> use is a permutation of the display.
\<close>

theorem py_order_perm:
  "distinct (map fst kvs) \<Longrightarrow> py_order kvs = Some items \<Longrightarrow> mset items = mset kvs"
proof -
  assume d: "distinct (map fst kvs)" and o: "py_order kvs = Some items"
  from py_order_inv [OF o] obtain t where b: "dict_build empty_table kvs = Some t"
    and inv: "dict_inv t" and items: "items = dict_items t" by blast
  have e: "dict_items (empty_table :: 'a table) = []" by (simp add: empty_table_def)
  have "set items = set kvs"
    using dict_build_items_eq [OF dict_inv_empty d _ b] by (simp add: e items)
  moreover have "distinct items" using dict_inv_distinct [OF inv] by (simp add: items distinct_map)
  moreover have "distinct kvs" using d by (simp add: distinct_map)
  ultimately show ?thesis by (simp add: set_eq_iff_mset_eq_distinct)
qed

theorem py_order_perm_witness:
  "distinct (map fst [(''bag'', 1::nat), (''scanner_id'', 2)]) \<and>
   py_order [(''bag'', 1::nat), (''scanner_id'', 2)] = Some [(''scanner_id'', 2), (''bag'', 1)] \<and>
   mset [(''scanner_id'', 2::nat), (''bag'', 1)] = mset [(''bag'', 1), (''scanner_id'', 2)]"
proof -
  have d: "distinct (map fst [(''bag'', 1::nat), (''scanner_id'', 2)])" by simp
  have o: "py_order [(''bag'', 1::nat), (''scanner_id'', 2)] = Some [(''scanner_id'', 2), (''bag'', 1)]"
    by (simp add: py_order_def empty_table_def dict_setitem_def find_slot_def str_hash_def slot_of_def
        fill_def dict_items_def probe_fuel_def Let_def probe.simps)
  show ?thesis using d o py_order_perm [OF d o] by blast
qed

text \<open>
  C24. The small table always suffices for a display of at most five keys: the probe
  finds a slot within its fuel and no resize is needed, so the order is defined.
\<close>

theorem py_order_total: "length kvs \<le> 5 \<Longrightarrow> \<exists>items. py_order kvs = Some items"
proof -
  assume "length kvs \<le> 5"
  then have "fill (empty_table :: 'a table) + length kvs \<le> 5" by (simp add: fill_def empty_table_def)
  then obtain t where "dict_build (empty_table :: 'a table) kvs = Some t"
    using dict_build_small [OF dict_inv_empty] by blast
  then show ?thesis by (simp add: py_order_def)
qed

theorem py_order_total_witness:
  "length [(''a'', 1::nat), (''b'', 2), (''c'', 3), (''d'', 4), (''e'', 5)] \<le> 5 \<and>
   (\<exists>items. py_order [(''a'', 1::nat), (''b'', 2), (''c'', 3), (''d'', 4), (''e'', 5)] = Some items)"
  using py_order_total [of "[(''a'', 1::nat), (''b'', 2), (''c'', 3), (''d'', 4), (''e'', 5)]"] by simp



text \<open>The iteration order of the script's two dict displays, whatever the values.\<close>

lemma py_order_data_keys:
  "py_order [(''bag'', a), (''scanner_id'', b)] = Some [(''scanner_id'', b), (''bag'', a)]"
  by (simp add: py_order_def empty_table_def dict_setitem_def find_slot_def str_hash_def slot_of_def
      fill_def dict_items_def probe_fuel_def Let_def probe.simps)

lemma py_order_bag_keys:
  "py_order [(''bag_id'', a), (''user_id'', b)] = Some [(''user_id'', b), (''bag_id'', a)]"
  by (simp add: py_order_def empty_table_def dict_setitem_def find_slot_def str_hash_def slot_of_def
      fill_def dict_items_def probe_fuel_def Let_def probe.simps)

end
