(* ===== verification/Utf8.thy ===== *)
theory Utf8
  imports Prelude
begin

text \<open>
  CPython 2.7's strict UTF-8 decoder (\<open>PyUnicode_DecodeUTF8\<close>), which \<open>json.dumps\<close>
  applies to a byte string holding a byte above 127. Bytes are numbers below 256, code
  points numbers. The first byte gives the length of the sequence (the table
  \<open>utf8_code_length\<close>: \<open>C2..DF\<close> two, \<open>E0..EF\<close> three, \<open>F0..F4\<close> four, \<open>80..C1\<close>
  and \<open>F5..FF\<close> invalid); the following bytes must be continuation bytes
  (\<open>10xxxxxx\<close>); \<open>E0\<close> and \<open>F0\<close> must not start an overlong form and \<open>F4\<close> must
  stay below \<open>U+110000\<close>. Encoded surrogates are accepted, as Python 2 does. Any
  error is \<open>None\<close> (the strict handler raises \<open>UnicodeDecodeError\<close>).
\<close>

definition utf8_len :: "nat \<Rightarrow> nat" where
  "utf8_len b =
     (if b < 128 then 1 else if b < 194 then 0 else if b < 224 then 2
      else if b < 240 then 3 else if b < 245 then 4 else 0)"

definition is_cont :: "nat \<Rightarrow> bool" where
  "is_cont c \<longleftrightarrow> 128 \<le> c \<and> c < 192"

definition utf8_value :: "nat \<Rightarrow> nat list \<Rightarrow> nat" where
  "utf8_value b cs = foldl (\<lambda>acc c. acc * 64 + c mod 64) (b mod 2 ^ (6 - length cs)) cs"

definition utf8_bad_second :: "nat \<Rightarrow> nat \<Rightarrow> bool" where
  "utf8_bad_second b c1 \<longleftrightarrow> (b = 224 \<and> c1 < 160) \<or> (b = 240 \<and> c1 < 144) \<or> (b = 244 \<and> 143 < c1)"

fun utf8_decode :: "nat list \<Rightarrow> nat list option" where
  "utf8_decode [] = Some []"
| "utf8_decode (b # bs) =
     (if b < 128 then map_option (Cons b) (utf8_decode bs)
      else
        (let n = utf8_len b; cs = take (n - 1) bs
         in if n = 0 \<or> length bs < n - 1 then None
            else if \<not> list_all is_cont cs \<or> utf8_bad_second b (hd cs) then None
            else map_option (Cons (utf8_value b cs)) (utf8_decode (drop (n - 1) bs))))"

text \<open>The canonical encoding of one code point, the inverse the decoder is checked against.\<close>

definition utf8_encode :: "nat \<Rightarrow> nat list" where
  "utf8_encode cp =
     (if cp < 128 then [cp]
      else if cp < 2048 then [192 + cp div 64, 128 + cp mod 64]
      else if cp < 65536 then [224 + cp div 4096, 128 + cp div 64 mod 64, 128 + cp mod 64]
      else [240 + cp div 262144, 128 + cp div 4096 mod 64, 128 + cp div 64 mod 64, 128 + cp mod 64])"

lemma utf8_decode_ascii: "list_all (\<lambda>b. b < 128) bs \<Longrightarrow> utf8_decode bs = Some bs"
  by (induction bs) simp_all

lemma mod64_cont [simp]: "(128 + x) mod 64 = x mod (64::nat)"
proof -
  have "128 + x = x + 2 * (64::nat)" by simp
  then show ?thesis by (simp only: mod_mult_self1)
qed

lemma utf8_decode_enc2:
  assumes "128 \<le> cp" "cp < 2048"
  shows "utf8_decode (utf8_encode cp @ rest) = map_option (Cons cp) (utf8_decode rest)"
proof -
  let ?b = "192 + cp div 64" and ?c = "128 + cp mod 64"
  have b: "194 \<le> ?b" "?b < 224" using assms by auto
  have v: "(?b mod 32) * 64 + ?c mod 64 = cp"
  proof -
    have "?b mod 32 = cp div 64" using assms by (simp add: mod_if)
    then show ?thesis by simp
  qed
  have "utf8_encode cp = [?b, ?c]" using assms by (simp add: utf8_encode_def)
  with b v show ?thesis
    by (simp add: utf8_len_def is_cont_def utf8_value_def utf8_bad_second_def)
qed

lemma div_split64: "(cp::nat) div 64 div 64 * 64 + cp div 64 mod 64 = cp div 64"
  by simp

lemma utf8_decode_enc3:
  assumes "2048 \<le> cp" "cp < 65536"
  shows "utf8_decode (utf8_encode cp @ rest) = map_option (Cons cp) (utf8_decode rest)"
proof -
  let ?b = "224 + cp div 4096" and ?c1 = "128 + cp div 64 mod 64" and ?c2 = "128 + cp mod 64"
  have d: "cp div 4096 = cp div 64 div 64" by (simp add: div_mult2_eq [symmetric])
  have b: "224 \<le> ?b" "?b < 240" using assms by auto
  have bm: "?b mod 16 = cp div 4096" using assms by (simp add: mod_if)
  have c1: "?c1 < 192" by simp
  have second: "\<not> utf8_bad_second ?b ?c1"
  proof -
    have "?b = 224 \<Longrightarrow> 160 \<le> ?c1" using assms by auto
    then show ?thesis using b by (auto simp: utf8_bad_second_def)
  qed
  have v: "((?b mod 16) * 64 + ?c1 mod 64) * 64 + ?c2 mod 64 = cp"
    using bm d div_split64 [of cp] by simp
  have "utf8_encode cp = [?b, ?c1, ?c2]" using assms by (simp add: utf8_encode_def)
  with b v second show ?thesis
    by (simp add: utf8_len_def is_cont_def utf8_value_def)
qed

lemma utf8_decode_enc4:
  assumes "65536 \<le> cp" "cp < 1114112"
  shows "utf8_decode (utf8_encode cp @ rest) = map_option (Cons cp) (utf8_decode rest)"
proof -
  let ?b = "240 + cp div 262144" and ?c1 = "128 + cp div 4096 mod 64"
    and ?c2 = "128 + cp div 64 mod 64" and ?c3 = "128 + cp mod 64"
  have d1: "cp div 262144 = cp div 4096 div 64" by (simp add: div_mult2_eq [symmetric])
  have d2: "cp div 4096 = cp div 64 div 64" by (simp add: div_mult2_eq [symmetric])
  have b: "240 \<le> ?b" "?b < 245" using assms by auto
  have bm: "?b mod 8 = cp div 262144" using assms by (simp add: mod_if)
  have second: "\<not> utf8_bad_second ?b ?c1"
  proof -
    have lo: "?b = 240 \<Longrightarrow> 144 \<le> ?c1" using assms by auto
    have hi: "?b = 244 \<Longrightarrow> ?c1 \<le> 143"
    proof -
      assume "?b = 244"
      then have "1048576 \<le> cp" by linarith
      with assms have "256 \<le> cp div 4096" "cp div 4096 < 272" by auto
      then have "cp div 4096 mod 64 = cp div 4096 - 256" by (simp add: mod_if)
      with \<open>cp div 4096 < 272\<close> show ?thesis by simp
    qed
    from lo hi b show ?thesis by (auto simp: utf8_bad_second_def)
  qed
  have v: "(((?b mod 8) * 64 + ?c1 mod 64) * 64 + ?c2 mod 64) * 64 + ?c3 mod 64 = cp"
    using bm d1 d2 div_split64 [of cp] div_split64 [of "cp div 64"] by simp
  have "utf8_encode cp = [?b, ?c1, ?c2, ?c3]" using assms by (simp add: utf8_encode_def)
  with b v second show ?thesis
    by (simp add: utf8_len_def is_cont_def utf8_value_def)
qed

lemma utf8_decode_enc:
  "cp < 1114112 \<Longrightarrow> utf8_decode (utf8_encode cp @ rest) = map_option (Cons cp) (utf8_decode rest)"
proof -
  assume cp: "cp < 1114112"
  consider "cp < 128" | "128 \<le> cp" "cp < 2048" | "2048 \<le> cp" "cp < 65536" | "65536 \<le> cp"
    by linarith
  then show ?thesis
  proof cases
    case 1
    then show ?thesis by (simp add: utf8_encode_def)
  qed (use cp utf8_decode_enc2 utf8_decode_enc3 utf8_decode_enc4 in auto)
qed


lemma cont_mod: "is_cont c \<Longrightarrow> c mod 64 = c - 128"
proof -
  assume "is_cont c"
  then have "c = 128 + (c - 128)" "c - 128 < 64" by (auto simp: is_cont_def)
  then show ?thesis by (metis mod64_cont mod_less)
qed

lemma div_mod_64: "y < 64 \<Longrightarrow> (x * 64 + y) div 64 = x \<and> (x * 64 + y) mod 64 = (y::nat)"
  by simp

lemma utf8_value_2:
  assumes "194 \<le> b" "b < 224" "is_cont c"
  shows "utf8_encode (utf8_value b [c]) = [b, c] \<and> utf8_value b [c] < 1114112"
proof -
  define x y where "x = b - 192" and "y = c - 128"
  have b: "b = x + 6 * 32" and c: "c = y + 2 * 64" and x: "2 \<le> x" "x < 32" and y: "y < 64"
    using assms by (auto simp: x_def y_def is_cont_def)
  have bm: "b mod 32 = x" unfolding b by (simp only: mod_mult_self1) (simp add: x)
  have cm: "c mod 64 = y" unfolding c by (simp only: mod_mult_self1) (simp add: y)
  have v: "utf8_value b [c] = x * 64 + y" by (simp add: utf8_value_def bm cm)
  have "128 \<le> x * 64 + y" "x * 64 + y < 2048" using x y by linarith+
  with v div_mod_64 [OF y, of x] show ?thesis by (simp add: utf8_encode_def b c)
qed

lemma utf8_value_3:
  assumes "224 \<le> b" "b < 240" "is_cont c1" "is_cont c2" "\<not> utf8_bad_second b c1"
  shows "utf8_encode (utf8_value b [c1, c2]) = [b, c1, c2] \<and> utf8_value b [c1, c2] < 1114112"
proof -
  define x y1 y2 where "x = b - 224" and "y1 = c1 - 128" and "y2 = c2 - 128"
  have b: "b = x + 14 * 16" and c1: "c1 = y1 + 2 * 64" and c2: "c2 = y2 + 2 * 64"
    and x: "x < 16" and y: "y1 < 64" "y2 < 64"
    using assms(1-4) by (auto simp: x_def y1_def y2_def is_cont_def)
  have low: "x = 0 \<Longrightarrow> 32 \<le> y1" using assms(5) c1 b by (auto simp: utf8_bad_second_def)
  have bm: "b mod 16 = x" unfolding b by (simp only: mod_mult_self1) (simp add: x)
  have cm: "c1 mod 64 = y1" "c2 mod 64 = y2" unfolding c1 c2
    by (simp_all only: mod_mult_self1) (simp_all add: y)
  let ?v = "(x * 64 + y1) * 64 + y2"
  have v: "utf8_value b [c1, c2] = ?v" by (simp add: utf8_value_def bm cm)
  have d1: "?v div 64 = x * 64 + y1" "?v mod 64 = y2" using div_mod_64 [OF y(2)] by blast+
  have d2: "?v div 4096 = x" "?v div 64 mod 64 = y1"
    using d1(1) div_mod_64 [OF y(1), of x] by (simp_all add: div_mult2_eq [of ?v 64 64, simplified])
  have "2048 \<le> ?v" using low by (cases "x = 0") auto
  moreover have "?v < 65536" using x y by simp
  ultimately show ?thesis using v d1 d2 by (simp add: utf8_encode_def b c1 c2)
qed

lemma utf8_value_4:
  assumes "240 \<le> b" "b < 245" "is_cont c1" "is_cont c2" "is_cont c3" "\<not> utf8_bad_second b c1"
  shows "utf8_encode (utf8_value b [c1, c2, c3]) = [b, c1, c2, c3] \<and> utf8_value b [c1, c2, c3] < 1114112"
proof -
  define x y1 y2 y3 where "x = b - 240" and "y1 = c1 - 128" and "y2 = c2 - 128" and "y3 = c3 - 128"
  have b: "b = x + 30 * 8" and c1: "c1 = y1 + 2 * 64" and c2: "c2 = y2 + 2 * 64"
    and c3: "c3 = y3 + 2 * 64" and x: "x < 5" and y: "y1 < 64" "y2 < 64" "y3 < 64"
    using assms(1-5) by (auto simp: x_def y1_def y2_def y3_def is_cont_def)
  have low: "x = 0 \<Longrightarrow> 16 \<le> y1" and high: "x = 4 \<Longrightarrow> y1 < 16"
    using assms(6) c1 b by (auto simp: utf8_bad_second_def)
  have bm: "b mod 8 = x" unfolding b by (simp only: mod_mult_self1) (rule mod_less, use x in linarith)
  have cm: "c1 mod 64 = y1" "c2 mod 64 = y2" "c3 mod 64 = y3" unfolding c1 c2 c3
    by (simp_all only: mod_mult_self1) (simp_all add: y)
  let ?u = "x * 64 + y1" let ?w = "?u * 64 + y2" let ?v = "?w * 64 + y3"
  have v: "utf8_value b [c1, c2, c3] = ?v" by (simp add: utf8_value_def bm cm)
  have d1: "?v div 64 = ?w" "?v mod 64 = y3" using div_mod_64 [OF y(3)] by blast+
  have d2: "?w div 64 = ?u" "?w mod 64 = y2" using div_mod_64 [OF y(2)] by blast+
  have d3: "?u div 64 = x" "?u mod 64 = y1" using div_mod_64 [OF y(1)] by blast+
  have e: "?v div 4096 = ?u" "?v div 262144 = x"
    using d1 d2 d3 div_mult2_eq [of ?v 64 64] div_mult2_eq [of ?v 4096 64] by simp_all
  have "65536 \<le> ?v" using low by (cases "x = 0") auto
  moreover have "?v < 1114112"
  proof (cases "x = 4")
    case True
    with high y show ?thesis by simp
  next
    case False
    with x y show ?thesis by simp
  qed
  ultimately show ?thesis using v d1 d2 d3 e by (simp add: utf8_encode_def b c1 c2 c3)
qed

lemma utf8_value_enc:
  assumes "128 \<le> b" "utf8_len b \<noteq> 0" "length cs = utf8_len b - 1" "list_all is_cont cs"
    "\<not> utf8_bad_second b (hd cs)"
  shows "utf8_encode (utf8_value b cs) = b # cs \<and> utf8_value b cs < 1114112"
proof -
  consider "194 \<le> b" "b < 224" "utf8_len b = 2" | "224 \<le> b" "b < 240" "utf8_len b = 3"
    | "240 \<le> b" "b < 245" "utf8_len b = 4"
    using assms(1,2) unfolding utf8_len_def by (auto split: if_splits)
  then show ?thesis
  proof cases
    case 1
    with assms(3) obtain c1 where "cs = [c1]" by (auto simp: length_Suc_conv numeral_2_eq_2)
    with 1 assms(4) show ?thesis using utf8_value_2 by auto
  next
    case 2
    with assms(3) obtain c1 c2 where "cs = [c1, c2]" by (auto simp: length_Suc_conv numeral_3_eq_3)
    with 2 assms(4,5) show ?thesis using utf8_value_3 by auto
  next
    case 3
    with assms(3) obtain c1 c2 c3 where "cs = [c1, c2, c3]"
      by (auto simp: length_Suc_conv eval_nat_numeral)
    with 3 assms(4,5) show ?thesis using utf8_value_4 by auto
  qed
qed

section \<open>The decoder and the encoding\<close>

text \<open>
  C25. The decoder accepts the encoding of every sequence of code points below
  \<open>U+110000\<close> and gives back that sequence.
\<close>

theorem utf8_encode_decode:
  "list_all (\<lambda>cp. cp < 1114112) cps \<Longrightarrow> utf8_decode (concat (map utf8_encode cps)) = Some cps"
  by (induction cps) (simp_all add: utf8_decode_enc)

theorem utf8_encode_decode_witness:
  "list_all (\<lambda>cp. cp < 1114112) [104::nat, 233, 8364, 128512] \<and>
   utf8_decode (concat (map utf8_encode [104, 233, 8364, 128512])) = Some [104, 233, 8364, 128512]"
proof -
  have h: "list_all (\<lambda>cp. cp < 1114112) [104::nat, 233, 8364, 128512]" by simp
  show ?thesis using h utf8_encode_decode [OF h] by blast
qed

text \<open>
  C26. The decoder accepts nothing else: whatever it accepts is the canonical encoding of
  what it returns, every code point below \<open>U+110000\<close>. No overlong form, stray
  continuation byte or truncated sequence gets through.
\<close>

theorem utf8_decode_canonical:
  "utf8_decode bs = Some cps \<Longrightarrow> concat (map utf8_encode cps) = bs \<and> list_all (\<lambda>cp. cp < 1114112) cps"
proof (induction bs arbitrary: cps rule: utf8_decode.induct)
  case 1
  then show ?case by simp
next
  case (2 b bs)
  show ?case
  proof (cases "b < 128")
    case True
    with "2.prems" obtain cps' where rest: "utf8_decode bs = Some cps'" and cps: "cps = b # cps'"
      by auto
    from "2.IH"(1) [OF True rest] True show ?thesis by (simp add: cps utf8_encode_def)
  next
    case False
    let ?n = "utf8_len b" let ?cs = "take (?n - 1) bs"
    from "2.prems" False have ok: "?n \<noteq> 0" "\<not> length bs < ?n - 1" "list_all is_cont ?cs"
      "\<not> utf8_bad_second b (hd ?cs)"
      by (auto simp: Let_def split: if_splits)
    with "2.prems" False obtain cps' where rest: "utf8_decode (drop (?n - 1) bs) = Some cps'"
      and cps: "cps = utf8_value b ?cs # cps'"
      by (auto simp: Let_def split: if_splits)
    have p1: "\<not> (?n = 0 \<or> length bs < ?n - 1)" using ok by simp
    have p2: "\<not> (\<not> list_all is_cont ?cs \<or> utf8_bad_second b (hd ?cs))" using ok by simp
    have ih: "concat (map utf8_encode cps') = drop (?n - 1) bs \<and> list_all (\<lambda>cp. cp < 1114112) cps'"
      by (rule "2.IH"(2) [OF False refl refl p1 p2 rest])
    have enc: "utf8_encode (utf8_value b ?cs) = b # ?cs \<and> utf8_value b ?cs < 1114112"
      using False ok by (intro utf8_value_enc) auto
    from ih enc show ?thesis by (simp add: cps)
  qed
qed

theorem utf8_decode_canonical_witness:
  "utf8_decode [104, 195, 169] = Some [104, 233] \<and>
   concat (map utf8_encode [104, 233]) = [104, 195, 169] \<and> list_all (\<lambda>cp. cp < 1114112) [104::nat, 233]"
proof -
  have h: "utf8_decode [104, 195, 169] = Some [104, 233]"
    by (simp add: utf8_len_def is_cont_def utf8_bad_second_def utf8_value_def)
  show ?thesis using h utf8_decode_canonical [OF h] by blast
qed

end
