(* ===== verification/Render.thy ===== *)
theory Render
  imports Request PyDict Utf8
begin

text \<open>
  The text the script produces from its \<open>data\<close> dict: what \<open>print data\<close> writes
  (Python 2's \<open>repr\<close>) and the body \<open>requests.post(json = data)\<close> sends
  (\<open>json.dumps\<close> with its defaults: \<open>ensure_ascii\<close>, separators \<open>", "\<close> and
  \<open>": "\<close>). Both write the keys of a dict in its iteration order (\<open>py_order\<close>).
\<close>

definition hex_digit :: "nat \<Rightarrow> char" where
  "hex_digit n = ''0123456789abcdef'' ! (n mod 16)"

section \<open>repr of a Python 2 str\<close>

text \<open>
  \<open>PyString_Repr\<close>: single quotes, or double quotes when the string holds a single
  quote and no double quote; the quote and the backslash are escaped, tab, newline and
  carriage return by letter, other bytes below space or from 127 up as \<open>\xhh\<close>.
\<close>

definition repr_quote :: "string \<Rightarrow> char" where
  "repr_quote s = (if CHR 0x27 \<in> set s \<and> CHR 0x22 \<notin> set s then CHR 0x22 else CHR 0x27)"

definition repr_char :: "char \<Rightarrow> char \<Rightarrow> string" where
  "repr_char q c =
     (let n = (of_char c :: nat)
      in if c = q \<or> c = CHR 0x5C then [CHR 0x5C, c]
         else if c = CHR 0x09 then [CHR 0x5C, CHR ''t'']
         else if c = CHR 0x0A then [CHR 0x5C, CHR ''n'']
         else if c = CHR 0x0D then [CHR 0x5C, CHR ''r'']
         else if n < 32 \<or> 127 \<le> n then [CHR 0x5C, CHR ''x'', hex_digit (n div 16), hex_digit n]
         else [c])"

definition str_repr :: "string \<Rightarrow> string" where
  "str_repr s = (let q = repr_quote s in q # concat (map (repr_char q) s) @ [q])"

section \<open>JSON strings\<close>

text \<open>
  \<open>ascii_escape_char\<close>: backslash, quote, and the five control characters with a short
  form are escaped by letter, every other code point outside printable ASCII as
  \<open>\uhhhh\<close>, a code point beyond the BMP as a surrogate pair.
\<close>

definition s_char :: "nat \<Rightarrow> bool" where
  "s_char c \<longleftrightarrow> 32 \<le> c \<and> c \<le> 126 \<and> c \<noteq> 92 \<and> c \<noteq> 34"

definition hex4 :: "nat \<Rightarrow> string" where
  "hex4 n = [hex_digit (n div 4096), hex_digit (n div 256), hex_digit (n div 16), hex_digit n]"

definition json_escape_cp :: "nat \<Rightarrow> string" where
  "json_escape_cp c =
     (if s_char c then [char_of c]
      else if c = 92 then [CHR 0x5C, CHR 0x5C]
      else if c = 34 then [CHR 0x5C, CHR 0x22]
      else if c = 8 then [CHR 0x5C, CHR ''b'']
      else if c = 12 then [CHR 0x5C, CHR ''f'']
      else if c = 10 then [CHR 0x5C, CHR ''n'']
      else if c = 13 then [CHR 0x5C, CHR ''r'']
      else if c = 9 then [CHR 0x5C, CHR ''t'']
      else if c < 65536 then [CHR 0x5C, CHR ''u''] @ hex4 c
      else [CHR 0x5C, CHR ''u''] @ hex4 (55296 + (c - 65536) div 1024) @
           [CHR 0x5C, CHR ''u''] @ hex4 (56320 + (c - 65536) mod 1024))"

text \<open>
  \<open>ascii_escape_str\<close>: a string of ASCII bytes is escaped byte by byte; a string with
  a byte above 127 is first decoded as UTF-8, and a decoding error raises
  \<open>UnicodeDecodeError\<close>.
\<close>

definition json_str :: "string \<Rightarrow> string result" where
  "json_str s =
     (if list_all (\<lambda>c. (of_char c :: nat) < 128) s
      then Inr (CHR 0x22 # concat (map (\<lambda>c. json_escape_cp (of_char c)) s) @ [CHR 0x22])
      else (case utf8_decode (map of_char s) of
              None \<Rightarrow> Inl UnicodeDecodeError
            | Some cps \<Rightarrow> Inr (CHR 0x22 # concat (map json_escape_cp cps) @ [CHR 0x22])))"

text \<open>
  The reference the fast path is checked against: decode every string, then escape its
  code points. A byte string is valid when it decodes.
\<close>

definition json_quote :: "nat list \<Rightarrow> string" where
  "json_quote cps = CHR 0x22 # concat (map json_escape_cp cps) @ [CHR 0x22]"

definition utf8_valid :: "string \<Rightarrow> bool" where
  "utf8_valid s \<longleftrightarrow> utf8_decode (map of_char s) \<noteq> None"

text \<open>Text of printable ASCII characters only, which \<open>ensure_ascii\<close> promises.\<close>

definition printable :: "string \<Rightarrow> bool" where
  "printable t \<longleftrightarrow> list_all (\<lambda>c. 32 \<le> (of_char c :: nat) \<and> (of_char c :: nat) \<le> 126) t"

section \<open>Serialising the data dict\<close>

text \<open>
  \<open>json.dumps\<close> (the C encoder, \<open>encoder_listencode_obj\<close>): a string through
  \<open>json_str\<close>; a dict as \<open>{\<close>, its items in iteration order as key, \<open>": "\<close>,
  value, separated by \<open>", "\<close>, then \<open>}\<close>; the first error raises. The values are
  rendered first and the rendered members put in the dict's order, which depends on the
  keys alone. \<open>None\<close> is a dict this model does not lay out (\<open>py_order\<close>).
\<close>

fun json_join :: "(string \<times> string result) list \<Rightarrow> string list result" where
  "json_join [] = Inr []"
| "json_join ((k, r) # ms) =
     (case json_str k of
        Inl e \<Rightarrow> Inl e
      | Inr kt \<Rightarrow> (case r of
                    Inl e \<Rightarrow> Inl e
                  | Inr vt \<Rightarrow> map_sum id (Cons (kt @ '': '' @ vt)) (json_join ms)))"

definition json_object :: "(string \<times> string result) list \<Rightarrow> string result" where
  "json_object ms = map_sum id (\<lambda>parts. ''{'' @ py_join '', '' parts @ ''}'') (json_join ms)"

fun json_dumps :: "json \<Rightarrow> string result option"
and json_members :: "(string \<times> json) list \<Rightarrow> (string \<times> string result) list option" where
  "json_dumps (JStr s) = Some (json_str s)"
| "json_dumps (JObj kvs) =
     (case json_members kvs of None \<Rightarrow> None | Some ms \<Rightarrow> map_option json_object (py_order ms))"
| "json_members [] = Some []"
| "json_members ((k, v) # kvs) =
     (case json_dumps v of None \<Rightarrow> None | Some r \<Rightarrow> map_option (Cons (k, r)) (json_members kvs))"

text \<open>
  \<open>print data\<close> writes \<open>str(data)\<close>, which for a dict is \<open>dict_repr\<close>:
  \<open>{\<close>, \<open>repr(key): repr(value)\<close> in iteration order separated by \<open>", "\<close>,
  \<open>}\<close>. It never raises.
\<close>

fun py_repr :: "json \<Rightarrow> string option"
and repr_members :: "(string \<times> json) list \<Rightarrow> (string \<times> string) list option" where
  "py_repr (JStr s) = Some (str_repr s)"
| "py_repr (JObj kvs) =
     (case repr_members kvs of
        None \<Rightarrow> None
      | Some ms \<Rightarrow> map_option (\<lambda>items. ''{'' @ py_join '', ''
                     (map (\<lambda>(k, v). str_repr k @ '': '' @ v) items) @ ''}'') (py_order ms))"
| "repr_members [] = Some []"
| "repr_members ((k, v) # kvs) =
     (case py_repr v of None \<Rightarrow> None | Some r \<Rightarrow> map_option (Cons (k, r)) (repr_members kvs))"

section \<open>Lemmas\<close>

lemma json_str_decoded: "utf8_decode (map of_char s) = Some cps \<Longrightarrow> json_str s = Inr (json_quote cps)"
proof (cases "list_all (\<lambda>c. (of_char c :: nat) < 128) s")
  case True
  then have "utf8_decode (map of_char s) = Some (map of_char s)"
    by (intro utf8_decode_ascii) (simp add: list_all_iff)
  moreover assume "utf8_decode (map of_char s) = Some cps"
  ultimately show ?thesis using True by (simp add: json_str_def json_quote_def comp_def)
qed (simp add: json_str_def json_quote_def)

lemma json_str_undecodable: "utf8_decode (map of_char s) = None \<Longrightarrow> json_str s = Inl UnicodeDecodeError"
proof (cases "list_all (\<lambda>c. (of_char c :: nat) < 128) s")
  case True
  then have "utf8_decode (map of_char s) = Some (map of_char s)"
    by (intro utf8_decode_ascii) (simp add: list_all_iff)
  moreover assume "utf8_decode (map of_char s) = None"
  ultimately show ?thesis by simp
qed (simp add: json_str_def)

lemma json_str_Inl: "json_str s = Inl e \<longleftrightarrow> e = UnicodeDecodeError \<and> \<not> utf8_valid s"
  by (cases "utf8_decode (map of_char s)") (auto simp: json_str_decoded json_str_undecodable utf8_valid_def)

lemma json_str_plain:
  "list_all (\<lambda>c. s_char (of_char c)) s \<Longrightarrow> json_str s = Inr (CHR 0x22 # s @ [CHR 0x22])"
proof -
  assume h: "list_all (\<lambda>c. s_char (of_char c)) s"
  then have a: "list_all (\<lambda>c. (of_char c :: nat) < 128) s"
    by (fastforce simp: list_all_iff s_char_def)
  from h have "concat (map (\<lambda>c. json_escape_cp (of_char c)) s) = s"
    by (induction s) (simp_all add: json_escape_cp_def)
  with a show ?thesis by (simp add: json_str_def)
qed


lemma str_repr_plain:
  "list_all (\<lambda>c. s_char (of_char c) \<and> c \<noteq> CHR 0x27) s \<Longrightarrow> str_repr s = CHR 0x27 # s @ [CHR 0x27]"
proof -
  assume h: "list_all (\<lambda>c. s_char (of_char c) \<and> c \<noteq> CHR 0x27) s"
  then have q: "repr_quote s = CHR 0x27"
    by (auto simp: repr_quote_def list_all_iff)
  from h have "concat (map (repr_char (CHR 0x27)) s) = s"
  proof (induction s)
    case (Cons c s)
    then have "s_char (of_char c)" "c \<noteq> CHR 0x27" by simp_all
    then have "repr_char (CHR 0x27) c = [c]"
      by (auto simp: repr_char_def s_char_def Let_def)
    with Cons show ?case by simp
  qed simp
  with q show ?thesis by (simp add: str_repr_def Let_def)
qed

lemma json_str_cases:
  "(json_str s = Inl UnicodeDecodeError \<Longrightarrow> P) \<Longrightarrow> (\<And>t. json_str s = Inr t \<Longrightarrow> P) \<Longrightarrow> P"
  by (cases "json_str s") (auto simp: json_str_Inl)

lemma json_str_valid: "utf8_valid s \<longleftrightarrow> (\<exists>t. json_str s = Inr t)"
  by (cases "utf8_decode (map of_char s)") (simp_all add: utf8_valid_def json_str_decoded json_str_undecodable)

lemma utf8_valid_ascii: "list_all (\<lambda>c. (of_char c :: nat) < 128) s \<Longrightarrow> utf8_valid s"
  by (simp add: utf8_valid_def utf8_decode_ascii list_all_iff)

text \<open>The body of the script's data dict, on each branch.\<close>

lemma json_dumps_request_data_Inr:
  \<open>json_str b = Inr bt \<Longrightarrow> json_str u = Inr ut \<Longrightarrow> json_str s = Inr st \<Longrightarrow>
   json_dumps (request_data b u s) =
     Some (Inr (''{"scanner_id": '' @ st @ '', "bag": {"user_id": '' @ ut @ '', "bag_id": '' @ bt @ ''}}''))\<close>
  by (simp add: request_data_def py_order_data_keys py_order_bag_keys json_object_def json_str_plain s_char_def)

lemma json_dumps_request_data_Inl:
  "\<not> (utf8_valid b \<and> utf8_valid u \<and> utf8_valid s) \<Longrightarrow>
   json_dumps (request_data b u s) = Some (Inl UnicodeDecodeError)"
  by (rule json_str_cases [of b]; rule json_str_cases [of u]; rule json_str_cases [of s])
    (simp_all add: json_str_valid request_data_def py_order_data_keys py_order_bag_keys json_object_def
      json_str_plain s_char_def)

lemma json_dumps_request_data_plain:
  \<open>list_all (\<lambda>c. s_char (of_char c)) (b @ u @ s) \<Longrightarrow>
   json_dumps (request_data b u s) =
     Some (Inr (''{"scanner_id": "'' @ s @ ''", "bag": {"user_id": "'' @ u @ ''", "bag_id": "'' @ b @ ''"}}''))\<close>
  by (simp add: json_dumps_request_data_Inr json_str_plain)

lemma printable_simps [simp]:
  "printable []" "printable (c # t) \<longleftrightarrow> 32 \<le> (of_char c :: nat) \<and> (of_char c :: nat) \<le> 126 \<and> printable t"
  "printable (t @ t') \<longleftrightarrow> printable t \<and> printable t'"
  by (simp_all add: printable_def)

lemma hex_digit_printable: "printable [hex_digit n]"
proof -
  have "n mod 16 < 16" by simp
  then have "n mod 16 \<in> {0..<16}" by simp
  then show ?thesis
    by (simp add: hex_digit_def atLeastLessThan_nat_numeral nth_Cons' cong: conj_cong)
qed

lemma hex_digit_bounds [simp]:
  "32 \<le> (of_char (hex_digit n) :: nat)" "(of_char (hex_digit n) :: nat) \<le> 126"
  using hex_digit_printable [of n] by simp_all

lemma printable_json_escape_cp [simp]: "printable (json_escape_cp c)"
  by (auto simp: json_escape_cp_def hex4_def s_char_def)

lemma printable_json_quote: "printable (json_quote cps)"
  by (induction cps) (simp_all add: json_quote_def)

lemma json_str_printable: "json_str s = Inr t \<Longrightarrow> printable t"
  by (cases "utf8_decode (map of_char s)") (auto simp: json_str_decoded json_str_undecodable printable_json_quote)

lemma printable_py_join:
  "printable sep \<Longrightarrow> list_all printable ps \<Longrightarrow> printable (py_join sep ps)"
  by (induction sep ps rule: py_join.induct) simp_all

lemma json_join_printable:
  "json_join ms = Inr parts \<Longrightarrow> list_all (\<lambda>(k, r). \<forall>v. r = Inr v \<longrightarrow> printable v) ms \<Longrightarrow>
   list_all printable parts"
  by (induction ms arbitrary: parts rule: json_join.induct)
    (auto simp: map_sum_eq_Inr split: sum.splits dest: json_str_printable)

lemma json_dumps_printable_aux:
  shows "\<forall>t. json_dumps j = Some (Inr t) \<longrightarrow> printable t"
  and "\<forall>ms. json_members kvs = Some ms \<longrightarrow> list_all (\<lambda>(k, r). \<forall>v. r = Inr v \<longrightarrow> printable v) ms"
proof (induction j and kvs rule: json_dumps_json_members.induct)
  case (1 s)
  then show ?case by (auto dest: json_str_printable)
next
  case (2 kvs)
  show ?case
  proof (intro allI impI)
    fix t assume h: "json_dumps (JObj kvs) = Some (Inr t)"
    then obtain ms items where m: "json_members kvs = Some ms" and o: "py_order ms = Some items"
      and j: "json_object items = Inr t"
      by (auto split: option.splits)
    from o have "set items \<subseteq> set ms" by (rule py_order_subset)
    with "2" m have "list_all (\<lambda>(k, r). \<forall>v. r = Inr v \<longrightarrow> printable v) items"
      by (fastforce simp: list_all_iff)
    with j show "printable t"
      by (auto simp: json_object_def map_sum_eq_Inr intro!: printable_py_join dest: json_join_printable)
  qed
next
  case 3
  then show ?case by simp
next
  case (4 k v kvs)
  then show ?case by (auto split: option.splits)
qed

section \<open>What the script prints and sends\<close>

text \<open>
  C17. The \<open>ensure_ascii\<close> fast path of \<open>ascii_escape_str\<close> (escape the bytes
  of an ASCII string directly) agrees with the general path: every string is decoded as
  UTF-8 and its code points escaped, and a string that does not decode raises
  \<open>UnicodeDecodeError\<close>.
\<close>

theorem json_str_decode:
  "json_str s = (case utf8_decode (map of_char s) of
                   None \<Rightarrow> Inl UnicodeDecodeError | Some cps \<Rightarrow> Inr (json_quote cps))"
  by (cases "utf8_decode (map of_char s)") (simp_all add: json_str_decoded json_str_undecodable)

text \<open>
  C18. The JSON body \<open>requests\<close> sends for the script's \<open>data\<close> dict: the keys in
  CPython 2.7's hash order (\<open>scanner_id\<close> before \<open>bag\<close>, \<open>user_id\<close> before
  \<open>bag_id\<close>), separated by \<open>", "\<close> and \<open>": "\<close>; when a field is not valid
  UTF-8, \<open>UnicodeDecodeError\<close> instead.
\<close>

theorem json_dumps_request_data:
  \<open>json_dumps (request_data b u s) = Some
     (case (json_str b, json_str u, json_str s) of
        (Inr bt, Inr ut, Inr st) \<Rightarrow>
          Inr (''{"scanner_id": '' @ st @ '', "bag": {"user_id": '' @ ut @ '', "bag_id": '' @ bt @ ''}}'')
      | _ \<Rightarrow> Inl UnicodeDecodeError)\<close>
  by (rule json_str_cases [of b]; rule json_str_cases [of u]; rule json_str_cases [of s])
    (simp_all add: json_dumps_request_data_Inr json_dumps_request_data_Inl json_str_valid)

text \<open>
  C19. What \<open>print data\<close> writes: the repr of the dict, in the same hash order, each
  field as Python 2's \<open>repr\<close> of a byte string.
\<close>

theorem py_repr_request_data:
  "py_repr (request_data b u s) = Some
     (''{'scanner_id': '' @ str_repr s @ '', 'bag': {'user_id': '' @ str_repr u @ '', 'bag_id': '' @
      str_repr b @ ''}}'')"
  by (simp add: request_data_def py_order_data_keys py_order_bag_keys str_repr_plain s_char_def)

text \<open>
  C20. Whatever the JSON value, a body \<open>json.dumps\<close> produces consists of printable
  ASCII characters only (\<open>ensure_ascii\<close>): every other byte or code point is escaped.
\<close>

theorem json_dumps_printable: "json_dumps j = Some (Inr t) \<Longrightarrow> printable t"
  using json_dumps_printable_aux(1) by blast

theorem json_dumps_printable_witness:
  \<open>json_dumps (request_data ''1234567890123456'' (''caf'' @ map char_of [195::nat, 169]) ''Q'') =
     Some (Inr (''{"scanner_id": "Q", "bag": {"user_id": "caf'' @ [CHR 0x5C] @ ''u00e9", "bag_id": "1234567890123456"}}'')) \<and>
   printable (''{"scanner_id": "Q", "bag": {"user_id": "caf'' @ [CHR 0x5C] @ ''u00e9", "bag_id": "1234567890123456"}}'')\<close>
proof -
  have h: \<open>json_dumps (request_data ''1234567890123456'' (''caf'' @ map char_of [195::nat, 169]) ''Q'') =
     Some (Inr (''{"scanner_id": "Q", "bag": {"user_id": "caf'' @ [CHR 0x5C] @ ''u00e9", "bag_id": "1234567890123456"}}''))\<close>
    by (simp add: request_data_def py_order_data_keys py_order_bag_keys json_object_def json_str_def
        utf8_len_def is_cont_def utf8_value_def utf8_bad_second_def json_escape_cp_def s_char_def
        hex4_def hex_digit_def char_of_def bit_0)
  show ?thesis using h json_dumps_printable [OF h] by blast
qed

end
