(* ===== verification/Driver.thy ===== *)
theory Driver
  imports Serial Scan Render
begin

text \<open>
  The script itself, \<open>src/driver.py\<close> lines 5 to 29: open the port, print
  \<open>connected\<close>, then loop for ever: read a line, parse it, print the three fields, print
  the data, post the request, print the response text. The world the script acts on is a
  record: the events the device has still to deliver, what was printed, and the requests
  posted. The HTTP server is a parameter, a function from the request to a response or a
  \<open>ConnectionError\<close>. One pass of the loop body either finishes (the loop goes on),
  blocks in \<open>readline\<close> because the device delivered no complete line (with no timeout
  it waits for ever), or raises, which ends the script.
\<close>

datatype printed = PrintStr string | PrintRepr json

record world =
  serial_in :: "serial_event list"
  stdout :: "printed list"
  sent :: "http_request list"

type_synonym server = "http_request \<Rightarrow> http_response result"

datatype outcome = Next world | Waiting world | Crashed exc world

definition port_path :: string where
  "port_path = ''/dev/tty.usbmodem14201''"

definition emit :: "printed list \<Rightarrow> world \<Rightarrow> world" where
  "emit ps w = w\<lparr>stdout := stdout w @ ps\<rparr>"

section \<open>One pass of the loop body (lines 10 to 29)\<close>

text \<open>
  \<open>requests.post(json = data)\<close> serialises the body with \<open>json.dumps\<close> while it
  prepares the request, before anything is sent: a field that is not UTF-8 raises
  \<open>UnicodeDecodeError\<close> there (the URL, decoded as UTF-8 by the same preparation,
  holds \<open>half_one\<close>, which is also in the body, so it raises on no other input).
  \<open>json_dumps\<close> is \<open>None\<close> only on dicts this model does not lay out, never on
  \<open>data\<close> (\<open>json_dumps_request_data\<close>).
\<close>

definition loop_body :: "server \<Rightarrow> world \<Rightarrow> outcome" where
  "loop_body srv w =
     (case readline (serial_in w) of
        Blocked \<Rightarrow> Waiting w
      | Failed e rest \<Rightarrow> Crashed e (w\<lparr>serial_in := rest\<rparr>)
      | Got raw rest \<Rightarrow>
          (let w1 = w\<lparr>serial_in := rest\<rparr>
           in case parse_line raw of
                Inl e \<Rightarrow> Crashed e w1
              | Inr r \<Rightarrow>
                  (let half_one = bag_id r; half_two = user_id r; station_num = scanner_id r;
                       w2 = emit [PrintStr half_one, PrintStr half_two, PrintStr station_num] w1;
                       headers = request_headers;
                       data = request_data half_one half_two station_num;
                       w3 = emit [PrintRepr data] w2;
                       req = post_request (base_url @ half_one) headers data
                   in case json_dumps data of
                        Some (Inl e) \<Rightarrow> Crashed e w3
                      | _ \<Rightarrow>
                          (let w4 = w3\<lparr>sent := sent w3 @ [req]\<rparr>
                           in case srv req of
                                Inl e \<Rightarrow> Crashed e w4
                              | Inr resp \<Rightarrow> Next (emit [PrintStr (resp_text resp)] w4)))))"

section \<open>The loop and the script\<close>

text \<open>
  \<open>while True\<close> never ends by itself, so the loop is run with fuel: \<open>run_loop n\<close>
  makes at most \<open>n\<close> passes and returns \<open>Next\<close> when the fuel is spent with the loop
  still going.
\<close>

fun run_loop :: "nat \<Rightarrow> server \<Rightarrow> world \<Rightarrow> outcome" where
  "run_loop 0 srv w = Next w"
| "run_loop (Suc n) srv w =
     (case loop_body srv w of Next w' \<Rightarrow> run_loop n srv w' | r \<Rightarrow> r)"

definition driver_main :: "string list \<Rightarrow> nat \<Rightarrow> server \<Rightarrow> world \<Rightarrow> outcome" where
  "driver_main present fuel srv w =
     (case open_serial present port_path 9600 of
        Inl e \<Rightarrow> Crashed e w
      | Inr ser \<Rightarrow> run_loop fuel srv (emit [PrintStr ''connected''] w))"

text \<open>What one pass prints for a scan before the post, and in all when the post returns.\<close>

definition field_prints :: "scan \<Rightarrow> printed list" where
  "field_prints r =
     [PrintStr (bag_id r), PrintStr (user_id r), PrintStr (scanner_id r),
      PrintRepr (request_data (bag_id r) (user_id r) (scanner_id r))]"

definition transcript :: "scan \<Rightarrow> http_response \<Rightarrow> printed list" where
  "transcript r resp = field_prints r @ [PrintStr (resp_text resp)]"

definition scan_request :: "scan \<Rightarrow> http_request" where
  "scan_request r = bag_request (bag_id r) (user_id r) (scanner_id r)"

text \<open>A scan whose body \<open>json.dumps\<close> can encode: its three fields are UTF-8.\<close>

definition scan_utf8 :: "scan \<Rightarrow> bool" where
  "scan_utf8 r \<longleftrightarrow> utf8_valid (bag_id r) \<and> utf8_valid (user_id r) \<and> utf8_valid (scanner_id r)"

section \<open>The abstract forwarder\<close>

text \<open>
  What the script promises, stated on lines rather than bytes: each line the device
  sends is parsed, its fields and data printed, turned into one request that is posted
  when its body encodes, and the response printed; the first exception stops everything, leaving the later lines unread. The
  result is the requests posted, the values printed, and how the run ended.
\<close>

datatype fwd_end = Done | Stopped exc "string list"

fun forward_lines :: "server \<Rightarrow> string list \<Rightarrow> http_request list \<times> printed list \<times> fwd_end" where
  "forward_lines srv [] = ([], [], Done)"
| "forward_lines srv (l # ls) =
     (case parse_line (l @ [nl]) of
        Inl e \<Rightarrow> ([], [], Stopped e ls)
      | Inr r \<Rightarrow>
          if \<not> scan_utf8 r then ([], field_prints r, Stopped UnicodeDecodeError ls)
          else (case srv (scan_request r) of
                  Inl e \<Rightarrow> ([scan_request r], field_prints r, Stopped e ls)
                | Inr resp \<Rightarrow>
                    (let (qs, ps, fin) = forward_lines srv ls
                     in (scan_request r # qs, transcript r resp @ ps, fin))))"

section \<open>Runs, reachable states and the invariant\<close>

text \<open>A run has halted when the script no longer loops: it waits in \<open>readline\<close> or has raised.\<close>

fun halted :: "outcome \<Rightarrow> bool" where
  "halted (Next w) = False"
| "halted (Waiting w) = True"
| "halted (Crashed e w) = True"

text \<open>The complete lines the device has delivered and the script has not read yet.\<close>

abbreviation pending :: "world \<Rightarrow> nat" where
  "pending w \<equiv> count_list (serial_in w) (Byte nl)"

text \<open>
  The states the script can be in at the top of its loop, for a given server: after
  \<open>connected\<close> is printed (the device may already hold any events), after each pass
  that does not raise, and after the device delivers more events, which it may do at any
  time.
\<close>

inductive reach :: "server \<Rightarrow> world \<Rightarrow> bool" for srv :: server where
  start: "reach srv \<lparr>serial_in = evs, stdout = [PrintStr ''connected''], sent = []\<rparr>"
| pass: "reach srv w \<Longrightarrow> loop_body srv w = Next w' \<Longrightarrow> reach srv w'"
| arrive: "reach srv w \<Longrightarrow> reach srv (w\<lparr>serial_in := serial_in w @ evs\<rparr>)"

text \<open>
  The invariant at the top of the loop: every request posted is well formed and has a
  JSON body of printable ASCII, the first
  line printed is \<open>connected\<close>, and each posted request accounts for exactly five
  printed values.
\<close>

definition driver_inv :: "world \<Rightarrow> bool" where
  "driver_inv w \<longleftrightarrow>
     list_all wf_request (sent w) \<and>
     list_all (\<lambda>q. \<exists>t. json_dumps (req_json q) = Some (Inr t) \<and> printable t) (sent w) \<and> stdout w \<noteq> [] \<and> hd (stdout w) = PrintStr ''connected'' \<and>
     length (stdout w) = Suc (5 * length (sent w))"

section \<open>Lemmas\<close>

lemma emit_simps [simp]:
  "serial_in (emit ps w) = serial_in w" "sent (emit ps w) = sent w"
  "stdout (emit ps w) = stdout w @ ps"
  by (simp_all add: emit_def)

lemma json_dumps_scan_request:
  "scan_utf8 r \<Longrightarrow> \<exists>t. json_dumps (req_json (scan_request r)) = Some (Inr t) \<and> printable t"
  "\<not> scan_utf8 r \<Longrightarrow> json_dumps (req_json (scan_request r)) = Some (Inl UnicodeDecodeError)"
proof -
  assume "scan_utf8 r"
  then obtain bt ut st where "json_str (bag_id r) = Inr bt" "json_str (user_id r) = Inr ut"
    "json_str (scanner_id r) = Inr st"
    by (auto simp: scan_utf8_def json_str_valid)
  from json_dumps_request_data_Inr [OF this]
  obtain t where t: "json_dumps (req_json (scan_request r)) = Some (Inr t)"
    by (simp add: scan_request_def)
  with json_dumps_printable_aux(1)
  show "\<exists>t. json_dumps (req_json (scan_request r)) = Some (Inr t) \<and> printable t"
    by blast
next
  assume "\<not> scan_utf8 r"
  then show "json_dumps (req_json (scan_request r)) = Some (Inl UnicodeDecodeError)"
    by (simp add: scan_request_def scan_utf8_def json_dumps_request_data_Inl)
qed

lemma loop_body_Got_parsed:
  "readline (serial_in w) = Got raw rest \<Longrightarrow> parse_line raw = Inr r \<Longrightarrow> scan_utf8 r \<Longrightarrow>
   loop_body srv w =
     (let w' = w\<lparr>serial_in := rest, stdout := stdout w @ field_prints r,
                 sent := sent w @ [scan_request r]\<rparr>
      in case srv (scan_request r) of
           Inl e \<Rightarrow> Crashed e w'
         | Inr resp \<Rightarrow> Next (emit [PrintStr (resp_text resp)] w'))"
proof -
  assume "readline (serial_in w) = Got raw rest" "parse_line raw = Inr r" "scan_utf8 r"
  moreover obtain t where "json_dumps (request_data (bag_id r) (user_id r) (scanner_id r)) = Some (Inr t)"
    using json_dumps_scan_request(1) [OF \<open>scan_utf8 r\<close>] by (auto simp: scan_request_def)
  ultimately show ?thesis
    by (cases "srv (scan_request r)")
      (simp_all add: loop_body_def Let_def emit_def scan_request_def bag_request_def field_prints_def)
qed

lemma loop_body_Got_unencodable:
  "readline (serial_in w) = Got raw rest \<Longrightarrow> parse_line raw = Inr r \<Longrightarrow> \<not> scan_utf8 r \<Longrightarrow>
   loop_body srv w = Crashed UnicodeDecodeError (w\<lparr>serial_in := rest, stdout := stdout w @ field_prints r\<rparr>)"
  using json_dumps_scan_request(2) [of r]
  by (simp add: loop_body_def Let_def emit_def scan_request_def bag_request_def post_request_def
      field_prints_def)

lemma loop_body_Got_bad:
  "readline (serial_in w) = Got raw rest \<Longrightarrow> parse_line raw = Inl e \<Longrightarrow>
   loop_body srv w = Crashed e (w\<lparr>serial_in := rest\<rparr>)"
  by (simp add: loop_body_def)

lemma loop_body_Next:
  "loop_body srv w = Next w' \<longleftrightarrow>
     (\<exists>raw rest r resp. readline (serial_in w) = Got raw rest \<and> parse_line raw = Inr r \<and>
        scan_utf8 r \<and> srv (scan_request r) = Inr resp \<and>
        w' = w\<lparr>serial_in := rest, stdout := stdout w @ transcript r resp,
               sent := sent w @ [scan_request r]\<rparr>)"
proof (cases "readline (serial_in w)")
  case (Got raw rest)
  show ?thesis
  proof (cases "parse_line raw")
    case (Inr r)
    show ?thesis
    proof (cases "scan_utf8 r")
      case True
      show ?thesis
        by (cases "srv (scan_request r)")
          (auto simp: loop_body_Got_parsed [OF Got Inr True] Got Inr True emit_def transcript_def)
    qed (simp add: loop_body_Got_unencodable [OF Got Inr] Got Inr)
  qed (simp add: loop_body_Got_bad [OF Got] Got)
qed (simp_all add: loop_body_def)

lemma loop_body_Next_pending: "loop_body srv w = Next w' \<Longrightarrow> pending w' < pending w"
  unfolding loop_body_Next by (auto dest: readline_Got_count)

lemma loop_body_Waiting: "loop_body srv w = Waiting w' \<longleftrightarrow> readline (serial_in w) = Blocked \<and> w' = w"
proof (cases "readline (serial_in w)")
  case (Got raw rest)
  show ?thesis
  proof (cases "parse_line raw")
    case (Inr r)
    show ?thesis
    proof (cases "scan_utf8 r")
      case True
      show ?thesis
        by (cases "srv (scan_request r)") (simp_all add: loop_body_Got_parsed [OF Got Inr True] Got)
    qed (simp add: loop_body_Got_unencodable [OF Got Inr] Got)
  qed (simp add: loop_body_Got_bad [OF Got] Got)
qed (auto simp: loop_body_def)

lemma wf_scan_request: "wf_scan r \<Longrightarrow> wf_request (scan_request r)"
  by (simp add: scan_request_def wf_bag_request wf_scan_def)

lemma loop_body_driver_inv: "driver_inv w \<Longrightarrow> loop_body srv w = Next w' \<Longrightarrow> driver_inv w'"
  unfolding loop_body_Next
  by (auto simp: driver_inv_def transcript_def field_prints_def
      intro!: wf_scan_request json_dumps_scan_request(1) dest: parse_line_Inr_wf)

text \<open>One pass over a line that is forwarded and answered.\<close>

lemma run_loop_line_ok:
  assumes "nl \<notin> set l" and p: "parse_line (l @ [nl]) = Inr r" and u: "scan_utf8 r"
    and s: "srv (scan_request r) = Inr resp"
  shows "run_loop (Suc n) srv (w\<lparr>serial_in := feed l @ Byte nl # evs\<rparr>) =
    run_loop n srv (w\<lparr>serial_in := evs, stdout := stdout w @ transcript r resp,
                     sent := sent w @ [scan_request r]\<rparr>)"
proof -
  have rl: "readline (serial_in (w\<lparr>serial_in := feed l @ Byte nl # evs\<rparr>)) = Got (l @ [nl]) evs"
    using assms(1) by (simp add: readline_feed_line)
  have "emit [PrintStr (resp_text resp)] (w\<lparr>serial_in := evs, stdout := stdout w @ field_prints r,
          sent := sent w @ [scan_request r]\<rparr>) =
        w\<lparr>serial_in := evs, stdout := stdout w @ transcript r resp, sent := sent w @ [scan_request r]\<rparr>"
    by (cases w) (simp add: emit_def transcript_def)
  with s show ?thesis by (simp add: loop_body_Got_parsed [OF rl p u])
qed

text \<open>
  The loop over the bytes of a list of lines (each free of the terminator, which the
  device appends) does what the line-level forwarder does.
\<close>

lemma run_loop_forward:
  "\<forall>l\<in>set ls. nl \<notin> set l \<Longrightarrow>
   run_loop (length ls) srv (w\<lparr>serial_in := line_events ls @ evs\<rparr>) =
     (case forward_lines srv ls of
        (qs, ps, Done) \<Rightarrow> Next (w\<lparr>serial_in := evs, stdout := stdout w @ ps, sent := sent w @ qs\<rparr>)
      | (qs, ps, Stopped e rest) \<Rightarrow>
          Crashed e (w\<lparr>serial_in := line_events rest @ evs, stdout := stdout w @ ps,
                       sent := sent w @ qs\<rparr>))"
proof (induction ls arbitrary: w)
  case Nil
  then show ?case by simp
next
  case (Cons l ls)
  have l: "nl \<notin> set l" using Cons.prems by simp
  have rl: "readline (serial_in (w\<lparr>serial_in := feed l @ Byte nl # line_events ls @ evs\<rparr>)) =
    Got (l @ [nl]) (line_events ls @ evs)"
    using l by (simp add: readline_feed_line)
  show ?case
  proof (cases "parse_line (l @ [nl])")
    case (Inl e)
    then show ?thesis by (simp add: loop_body_Got_bad [OF rl])
  next
    case (Inr r)
    show ?thesis
    proof (cases "scan_utf8 r")
      case False
      with Inr show ?thesis by (simp add: loop_body_Got_unencodable [OF rl Inr False])
    next
      case True
      show ?thesis
      proof (cases "srv (scan_request r)")
        case (Inl e)
        with Inr True show ?thesis by (simp add: loop_body_Got_parsed [OF rl Inr True])
      next
        case (Inr resp)
        let ?w' = "w\<lparr>stdout := stdout w @ transcript r resp, sent := sent w @ [scan_request r]\<rparr>"
        have "run_loop (length (l # ls)) srv (w\<lparr>serial_in := line_events (l # ls) @ evs\<rparr>) =
          run_loop (length ls) srv (w\<lparr>serial_in := line_events ls @ evs,
            stdout := stdout w @ transcript r resp, sent := sent w @ [scan_request r]\<rparr>)"
          using run_loop_line_ok [where srv = srv and n = "length ls" and w = w
              and evs = "line_events ls @ evs", OF l \<open>parse_line (l @ [nl]) = Inr r\<close> True Inr]
          by simp
        also have "w\<lparr>serial_in := line_events ls @ evs, stdout := stdout w @ transcript r resp,
            sent := sent w @ [scan_request r]\<rparr> = ?w'\<lparr>serial_in := line_events ls @ evs\<rparr>"
          by (cases w) simp
        finally have step: "run_loop (length (l # ls)) srv (w\<lparr>serial_in := line_events (l # ls) @ evs\<rparr>) =
          run_loop (length ls) srv (?w'\<lparr>serial_in := line_events ls @ evs\<rparr>)" .
        have ih: "run_loop (length ls) srv (?w'\<lparr>serial_in := line_events ls @ evs\<rparr>) =
          (case forward_lines srv ls of
             (qs, ps, Done) \<Rightarrow> Next (?w'\<lparr>serial_in := evs, stdout := stdout ?w' @ ps, sent := sent ?w' @ qs\<rparr>)
           | (qs, ps, Stopped e rest) \<Rightarrow>
               Crashed e (?w'\<lparr>serial_in := line_events rest @ evs, stdout := stdout ?w' @ ps,
                            sent := sent ?w' @ qs\<rparr>))"
          using Cons.prems by (intro Cons.IH) simp
        obtain qs ps fin where fl: "forward_lines srv ls = (qs, ps, fin)"
          by (cases "forward_lines srv ls") auto
        show ?thesis
          unfolding step ih using \<open>parse_line (l @ [nl]) = Inr r\<close> True Inr
          by (cases fin) (simp_all add: fl)
      qed
    qed
  qed
qed

text \<open>A reachable state: the example line read and answered once.\<close>

lemma reach_example:
  "reach (\<lambda>q. Inr \<lparr>status_code = 201, resp_text = ''created''\<rparr>)
     \<lparr>serial_in = [], stdout = PrintStr ''connected'' # transcript \<lparr>bag_id = ''1234567890123456'', user_id = ''ABCDEFGHIJKLMNOP'', scanner_id = ''Q''\<rparr> \<lparr>status_code = 201, resp_text = ''created''\<rparr>,
      sent = [scan_request \<lparr>bag_id = ''1234567890123456'', user_id = ''ABCDEFGHIJKLMNOP'', scanner_id = ''Q''\<rparr>]\<rparr>"
  (is "reach ?srv ?w1")
proof -
  let ?w0 = "\<lparr>serial_in = line_events [''1234567890123456ABCDEFGHIJKLMNOPxQ''],
              stdout = [PrintStr ''connected''], sent = []\<rparr>"
  have r0: "reach ?srv ?w0" by (rule reach.start)
  have "loop_body ?srv ?w0 = Next ?w1"
    by (simp add: loop_body_def readline_def parse_line_clean strip_dashes_filter
        Let_def emit_def transcript_def field_prints_def scan_request_def bag_request_def
        json_dumps_request_data_plain s_char_def)
  with r0 show ?thesis by (rule reach.pass)
qed

section \<open>Safety: the invariant of the loop\<close>

text \<open>
  C3. In every state the script can reach at the top of its loop, whatever the server
  answers and whenever the device delivers, every request posted is a POST with the JSON
  content type whose URL is the base URL followed by the body's \<open>bag_id\<close>, with
  fields of 16, 16 and 1 characters, and whose body \<open>json.dumps\<close> encodes into
  printable ASCII; \<open>connected\<close> was printed first; and five values were printed per
  request.
\<close>

theorem reach_driver_inv: "reach srv w \<Longrightarrow> driver_inv w"
proof (induction rule: reach.induct)
  case (start evs)
  then show ?case by (simp add: driver_inv_def)
next
  case (pass w w')
  then show ?case by (blast intro: loop_body_driver_inv)
next
  case (arrive w evs)
  then show ?case by (simp add: driver_inv_def)
qed

theorem reach_driver_inv_witness:
  "reach (\<lambda>q. Inr \<lparr>status_code = 201, resp_text = ''created''\<rparr>)
     \<lparr>serial_in = [], stdout = PrintStr ''connected'' # transcript \<lparr>bag_id = ''1234567890123456'', user_id = ''ABCDEFGHIJKLMNOP'', scanner_id = ''Q''\<rparr> \<lparr>status_code = 201, resp_text = ''created''\<rparr>,
      sent = [scan_request \<lparr>bag_id = ''1234567890123456'', user_id = ''ABCDEFGHIJKLMNOP'', scanner_id = ''Q''\<rparr>]\<rparr> \<and>
   driver_inv
     \<lparr>serial_in = [], stdout = PrintStr ''connected'' # transcript \<lparr>bag_id = ''1234567890123456'', user_id = ''ABCDEFGHIJKLMNOP'', scanner_id = ''Q''\<rparr> \<lparr>status_code = 201, resp_text = ''created''\<rparr>,
      sent = [scan_request \<lparr>bag_id = ''1234567890123456'', user_id = ''ABCDEFGHIJKLMNOP'', scanner_id = ''Q''\<rparr>]\<rparr>"
  using reach_example reach_driver_inv [OF reach_example] by blast

text \<open>
  C28. The console and the posts stay in step: in every reachable state there is a
  history of answered scans such that the requests posted are theirs, in order, and the
  console shows \<open>connected\<close> followed by each scan's five values and its response, in
  the same order. Every scan of the history had UTF-8 fields and its post was answered.
\<close>

theorem reach_lockstep:
  "reach srv w \<Longrightarrow>
   \<exists>hist. sent w = map (\<lambda>(r, resp). scan_request r) hist \<and>
     stdout w = PrintStr ''connected'' # concat (map (\<lambda>(r, resp). transcript r resp) hist) \<and>
     list_all (\<lambda>(r, resp). scan_utf8 r \<and> srv (scan_request r) = Inr resp) hist"
proof (induction rule: reach.induct)
  case (start evs)
  show ?case by (intro exI [of _ "[]"]) simp
next
  case (pass w w')
  from pass.IH obtain hist where
    h: "sent w = map (\<lambda>(r, resp). scan_request r) hist"
       "stdout w = PrintStr ''connected'' # concat (map (\<lambda>(r, resp). transcript r resp) hist)"
       "list_all (\<lambda>(r, resp). scan_utf8 r \<and> srv (scan_request r) = Inr resp) hist"
    by blast
  from pass.hyps(2) obtain raw rest r resp where
    step: "scan_utf8 r" "srv (scan_request r) = Inr resp"
      "w' = w\<lparr>serial_in := rest, stdout := stdout w @ transcript r resp, sent := sent w @ [scan_request r]\<rparr>"
    unfolding loop_body_Next by blast
  show ?case using h step by (intro exI [of _ "hist @ [(r, resp)]"]) simp
next
  case (arrive w evs)
  then show ?case by simp
qed

theorem reach_lockstep_witness:
  "reach (\<lambda>q. Inr \<lparr>status_code = 201, resp_text = ''created''\<rparr>)
     \<lparr>serial_in = [], stdout = PrintStr ''connected'' # transcript \<lparr>bag_id = ''1234567890123456'', user_id = ''ABCDEFGHIJKLMNOP'', scanner_id = ''Q''\<rparr> \<lparr>status_code = 201, resp_text = ''created''\<rparr>,
      sent = [scan_request \<lparr>bag_id = ''1234567890123456'', user_id = ''ABCDEFGHIJKLMNOP'', scanner_id = ''Q''\<rparr>]\<rparr> \<and>
   (\<exists>hist. [scan_request \<lparr>bag_id = ''1234567890123456'', user_id = ''ABCDEFGHIJKLMNOP'', scanner_id = ''Q''\<rparr>] = map (\<lambda>(r, resp). scan_request r) hist \<and>
     PrintStr ''connected'' # transcript \<lparr>bag_id = ''1234567890123456'', user_id = ''ABCDEFGHIJKLMNOP'', scanner_id = ''Q''\<rparr> \<lparr>status_code = 201, resp_text = ''created''\<rparr> =
       PrintStr ''connected'' # concat (map (\<lambda>(r, resp). transcript r resp) hist) \<and>
     list_all (\<lambda>(r, resp). scan_utf8 r \<and> (\<lambda>q. Inr \<lparr>status_code = 201, resp_text = ''created''\<rparr>) (scan_request r) = Inr resp) hist)"
  using reach_example reach_lockstep [OF reach_example] by simp

section \<open>Termination and progress of the loop\<close>

text \<open>
  C4. On a device that has delivered finitely many complete lines, the loop never spins:
  with more passes than pending lines, the script has either blocked in \<open>readline\<close>
  or raised.
\<close>

theorem run_loop_halts: "pending w < n \<Longrightarrow> halted (run_loop n srv w)"
proof (induction n arbitrary: w)
  case 0
  then show ?case by simp
next
  case (Suc n)
  show ?case
  proof (cases "loop_body srv w")
    case (Next w')
    with Suc.prems have "pending w' < n"
      using loop_body_Next_pending by fastforce
    with Next show ?thesis by (simp add: Suc.IH)
  qed simp_all
qed

theorem run_loop_halts_witness:
  "pending \<lparr>serial_in = line_events [''1234567890123456ABCDEFGHIJKLMNOPxQ''], stdout = [], sent = []\<rparr> < 2 \<and>
   halted (run_loop 2 (\<lambda>q. Inr \<lparr>status_code = 201, resp_text = ''created''\<rparr>)
     \<lparr>serial_in = line_events [''1234567890123456ABCDEFGHIJKLMNOPxQ''], stdout = [], sent = []\<rparr>)"
proof -
  have h: "pending \<lparr>serial_in = line_events [''1234567890123456ABCDEFGHIJKLMNOPxQ''], stdout = [], sent = []\<rparr> < 2"
    by simp
  show ?thesis using h run_loop_halts [OF h] by blast
qed

text \<open>
  C5. The script only blocks when no complete line is waiting to be read: when a run
  ends waiting, the device holds neither a terminator nor a disconnection, so every line
  it delivered was read.
\<close>

theorem run_loop_Waiting:
  "run_loop n srv w = Waiting w' \<Longrightarrow> Unplug \<notin> set (serial_in w') \<and> Byte nl \<notin> set (serial_in w')"
proof (induction n arbitrary: w)
  case (Suc n)
  show ?case
  proof (cases "loop_body srv w")
    case (Next w1)
    with Suc show ?thesis by simp
  next
    case (Waiting w1)
    with Suc.prems show ?thesis by (simp add: loop_body_Waiting readline_Blocked)
  next
    case (Crashed e w1)
    with Suc.prems show ?thesis by simp
  qed
qed simp

theorem run_loop_Waiting_witness:
  "run_loop 2 (\<lambda>q. Inr \<lparr>status_code = 201, resp_text = ''created''\<rparr>)
     \<lparr>serial_in = line_events [''1234567890123456ABCDEFGHIJKLMNOPxQ''] @ feed ''12'', stdout = [], sent = []\<rparr> =
   Waiting \<lparr>serial_in = feed ''12'',
     stdout = transcript \<lparr>bag_id = ''1234567890123456'', user_id = ''ABCDEFGHIJKLMNOP'', scanner_id = ''Q''\<rparr>
          \<lparr>status_code = 201, resp_text = ''created''\<rparr>,
     sent = [scan_request \<lparr>bag_id = ''1234567890123456'', user_id = ''ABCDEFGHIJKLMNOP'', scanner_id = ''Q''\<rparr>]\<rparr> \<and>
   Unplug \<notin> set (feed ''12'') \<and> Byte nl \<notin> set (feed ''12'')"
proof -
  have h: "run_loop 2 (\<lambda>q. Inr \<lparr>status_code = 201, resp_text = ''created''\<rparr>)
     \<lparr>serial_in = line_events [''1234567890123456ABCDEFGHIJKLMNOPxQ''] @ feed ''12'', stdout = [], sent = []\<rparr> =
   Waiting \<lparr>serial_in = feed ''12'',
     stdout = transcript \<lparr>bag_id = ''1234567890123456'', user_id = ''ABCDEFGHIJKLMNOP'', scanner_id = ''Q''\<rparr>
          \<lparr>status_code = 201, resp_text = ''created''\<rparr>,
     sent = [scan_request \<lparr>bag_id = ''1234567890123456'', user_id = ''ABCDEFGHIJKLMNOP'', scanner_id = ''Q''\<rparr>]\<rparr>"
    by (simp add: numeral_2_eq_2 loop_body_def readline_def parse_line_clean strip_dashes_filter
        Let_def emit_def transcript_def field_prints_def scan_request_def bag_request_def
        json_dumps_request_data_plain s_char_def)
  show ?thesis using h run_loop_Waiting [OF h] by simp
qed

section \<open>The script forwards each line: refinement\<close>

text \<open>
  C1. The whole script, started with the port present on a device that sends a list of
  lines (each free of the terminator, which the device appends) and then other events:
  after one pass per line it has printed \<open>connected\<close> and then exactly what the
  line-level forwarder prints, posted exactly the requests it posts, and ended as it
  ends. When a line raises, the script stops there with that exception and the later
  lines stay unread in the device.
\<close>

theorem driver_main_refines:
  assumes "\<forall>l\<in>set ls. nl \<notin> set l" and "port_path \<in> set present"
  shows "driver_main present (length ls) srv \<lparr>serial_in = line_events ls @ evs, stdout = [], sent = []\<rparr> =
     (case forward_lines srv ls of
        (qs, ps, Done) \<Rightarrow> Next \<lparr>serial_in = evs, stdout = PrintStr ''connected'' # ps, sent = qs\<rparr>
      | (qs, ps, Stopped e rest) \<Rightarrow>
          Crashed e \<lparr>serial_in = line_events rest @ evs, stdout = PrintStr ''connected'' # ps, sent = qs\<rparr>)"
proof -
  let ?w0 = "\<lparr>serial_in = [], stdout = [PrintStr ''connected''], sent = []\<rparr>"
  have "driver_main present (length ls) srv \<lparr>serial_in = line_events ls @ evs, stdout = [], sent = []\<rparr> =
        run_loop (length ls) srv (?w0\<lparr>serial_in := line_events ls @ evs\<rparr>)"
    using assms(2) by (simp add: driver_main_def open_serial_def emit_def)
  also have "\<dots> = (case forward_lines srv ls of
        (qs, ps, Done) \<Rightarrow> Next (?w0\<lparr>serial_in := evs, stdout := stdout ?w0 @ ps, sent := sent ?w0 @ qs\<rparr>)
      | (qs, ps, Stopped e rest) \<Rightarrow>
          Crashed e (?w0\<lparr>serial_in := line_events rest @ evs, stdout := stdout ?w0 @ ps,
                       sent := sent ?w0 @ qs\<rparr>))"
    using assms(1) by (rule run_loop_forward)
  finally show ?thesis by (simp split: prod.splits fwd_end.splits)
qed

theorem driver_main_refines_witness:
  "driver_main [port_path] 1 (\<lambda>q. Inr \<lparr>status_code = 201, resp_text = ''created''\<rparr>)
     \<lparr>serial_in = line_events [''1234567890123456ABCDEFGHIJKLMNOPxQ''], stdout = [], sent = []\<rparr> =
   Next \<lparr>serial_in = [],
         stdout = PrintStr ''connected'' #
           transcript \<lparr>bag_id = ''1234567890123456'', user_id = ''ABCDEFGHIJKLMNOP'', scanner_id = ''Q''\<rparr>
             \<lparr>status_code = 201, resp_text = ''created''\<rparr>,
         sent = [scan_request \<lparr>bag_id = ''1234567890123456'', user_id = ''ABCDEFGHIJKLMNOP'', scanner_id = ''Q''\<rparr>]\<rparr>"
  using driver_main_refines [where ls = "[''1234567890123456ABCDEFGHIJKLMNOPxQ'']" and present = "[port_path]"
      and srv = "\<lambda>q. Inr \<lparr>status_code = 201, resp_text = ''created''\<rparr>" and evs = "[]"]
  by (simp add: parse_line_clean strip_dashes_filter scan_utf8_def utf8_valid_ascii)

section \<open>Error paths\<close>

text \<open>
  C10. A line whose cleaned payload has at most 32 characters (so the cleaned line,
  terminator included, has at most 33) makes \<open>line[33]\<close> raise \<open>IndexError\<close>:
  the script stops having consumed the line, printing and posting nothing for it.
\<close>

theorem loop_body_short_line:
  "nl \<notin> set l \<Longrightarrow> length (filter (\<lambda>c. c \<noteq> CHR ''-'') l) \<le> 32 \<Longrightarrow>
   loop_body srv (w\<lparr>serial_in := feed l @ Byte nl # evs\<rparr>) = Crashed IndexError (w\<lparr>serial_in := evs\<rparr>)"
  by (simp add: loop_body_def readline_feed_line parse_line_clean strip_dashes_filter)

theorem loop_body_short_line_witness:
  "loop_body (\<lambda>q. Inr \<lparr>status_code = 201, resp_text = ''created''\<rparr>)
     \<lparr>serial_in = feed ''12345678-90123456ABCDEFGHIJKLMNOP'' @ Byte nl # feed ''next'', stdout = [], sent = []\<rparr> =
   Crashed IndexError \<lparr>serial_in = feed ''next'', stdout = [], sent = []\<rparr>"
  using loop_body_short_line [where l = "''12345678-90123456ABCDEFGHIJKLMNOP''"
      and srv = "\<lambda>q. Inr \<lparr>status_code = 201, resp_text = ''created''\<rparr>"
      and w = "\<lparr>serial_in = [], stdout = [], sent = []\<rparr>" and evs = "feed ''next''"]
  by simp

text \<open>
  C11. When the POST fails to connect, the script stops with that exception after it
  has printed the three fields and the data and attempted the request, and before it
  prints any response.
\<close>

theorem loop_body_network_error:
  "nl \<notin> set l \<Longrightarrow> parse_line (l @ [nl]) = Inr r \<Longrightarrow> scan_utf8 r \<Longrightarrow> srv (scan_request r) = Inl e \<Longrightarrow>
   loop_body srv (w\<lparr>serial_in := feed l @ Byte nl # evs\<rparr>) =
     Crashed e (w\<lparr>serial_in := evs, stdout := stdout w @ field_prints r, sent := sent w @ [scan_request r]\<rparr>)"
  by (simp add: loop_body_Got_parsed readline_feed_line)

theorem loop_body_network_error_witness:
  "loop_body (\<lambda>q. Inl ConnectionError)
     \<lparr>serial_in = feed ''1234567890123456ABCDEFGHIJKLMNOPxQ'' @ Byte nl # [], stdout = [], sent = []\<rparr> =
   Crashed ConnectionError
     \<lparr>serial_in = [],
      stdout = field_prints \<lparr>bag_id = ''1234567890123456'', user_id = ''ABCDEFGHIJKLMNOP'', scanner_id = ''Q''\<rparr>,
      sent = [scan_request \<lparr>bag_id = ''1234567890123456'', user_id = ''ABCDEFGHIJKLMNOP'', scanner_id = ''Q''\<rparr>]\<rparr>"
  using loop_body_network_error [where l = "''1234567890123456ABCDEFGHIJKLMNOPxQ''"
      and r = "\<lparr>bag_id = ''1234567890123456'', user_id = ''ABCDEFGHIJKLMNOP'', scanner_id = ''Q''\<rparr>"
      and srv = "\<lambda>q. Inl ConnectionError" and e = ConnectionError
      and w = "\<lparr>serial_in = [], stdout = [], sent = []\<rparr>" and evs = "[]"]
  by (simp add: parse_line_clean strip_dashes_filter scan_utf8_def utf8_valid_ascii)

text \<open>
  C12. A device that goes away before the terminator makes \<open>readline\<close> raise
  \<open>SerialException\<close>: the script stops, the bytes of the partial line are lost, and
  nothing is printed or posted for them.
\<close>

theorem loop_body_unplug:
  "nl \<notin> set l \<Longrightarrow>
   loop_body srv (w\<lparr>serial_in := feed l @ Unplug # evs\<rparr>) = Crashed SerialException (w\<lparr>serial_in := evs\<rparr>)"
  by (simp add: loop_body_def readline_feed_unplug)

theorem loop_body_unplug_witness:
  "loop_body (\<lambda>q. Inr \<lparr>status_code = 201, resp_text = ''created''\<rparr>)
     \<lparr>serial_in = feed ''12345'' @ Unplug # feed ''later'', stdout = [], sent = []\<rparr> =
   Crashed SerialException \<lparr>serial_in = feed ''later'', stdout = [], sent = []\<rparr>"
  using loop_body_unplug [where l = "''12345''" and srv = "\<lambda>q. Inr \<lparr>status_code = 201, resp_text = ''created''\<rparr>"
      and w = "\<lparr>serial_in = [], stdout = [], sent = []\<rparr>" and evs = "feed ''later''"]
  by simp

text \<open>
  C21. The fields are cut from the line by byte offsets, so a multi-byte UTF-8 character
  of a valid text line can be split between two fields. When a field is not valid UTF-8,
  \<open>requests.post\<close> raises \<open>UnicodeDecodeError\<close> while it encodes the body: the
  script stops after printing the three fields and the data, and posts nothing.
\<close>

theorem loop_body_not_utf8:
  "nl \<notin> set l \<Longrightarrow> parse_line (l @ [nl]) = Inr r \<Longrightarrow> \<not> scan_utf8 r \<Longrightarrow>
   loop_body srv (w\<lparr>serial_in := feed l @ Byte nl # evs\<rparr>) =
     Crashed UnicodeDecodeError (w\<lparr>serial_in := evs, stdout := stdout w @ field_prints r\<rparr>)"
  by (simp add: loop_body_Got_unencodable readline_feed_line)

theorem loop_body_not_utf8_witness:
  "loop_body (\<lambda>q. Inr \<lparr>status_code = 201, resp_text = ''created''\<rparr>)
     \<lparr>serial_in = feed (''123456789012345'' @ [CHR 0xC3, CHR 0xA9] @ ''BCDEFGHIJKLMNOPxQ'') @ [Byte nl],
      stdout = [], sent = []\<rparr> =
   Crashed UnicodeDecodeError
     \<lparr>serial_in = [],
      stdout = field_prints \<lparr>bag_id = ''123456789012345'' @ [CHR 0xC3],
                              user_id = CHR 0xA9 # ''BCDEFGHIJKLMNOP'', scanner_id = ''Q''\<rparr>,
      sent = []\<rparr>"
  using loop_body_not_utf8 [where l = "''123456789012345'' @ [CHR 0xC3, CHR 0xA9] @ ''BCDEFGHIJKLMNOPxQ''"
      and r = "\<lparr>bag_id = ''123456789012345'' @ [CHR 0xC3],
               user_id = CHR 0xA9 # ''BCDEFGHIJKLMNOP'', scanner_id = ''Q''\<rparr>"
      and srv = "\<lambda>q. Inr \<lparr>status_code = 201, resp_text = ''created''\<rparr>"
      and w = "\<lparr>serial_in = [], stdout = [], sent = []\<rparr>" and evs = "[]"]
  by (simp add: parse_line_clean strip_dashes_filter scan_utf8_def utf8_valid_def utf8_len_def Let_def)

text \<open>
  C13. When the port is absent, the script raises \<open>SerialException\<close> at startup,
  before printing anything or reading the device.
\<close>

theorem driver_main_no_port:
  "port_path \<notin> set present \<Longrightarrow> driver_main present fuel srv w = Crashed SerialException w"
  by (simp add: driver_main_def open_serial_def)

theorem driver_main_no_port_witness:
  "driver_main [''/dev/ttyACM0''] 5 (\<lambda>q. Inl ConnectionError) \<lparr>serial_in = feed ''x'', stdout = [], sent = []\<rparr> =
   Crashed SerialException \<lparr>serial_in = feed ''x'', stdout = [], sent = []\<rparr>"
  by (rule driver_main_no_port) (simp add: port_path_def)

section \<open>No deduplication\<close>

text \<open>
  C16. The same line sent twice gives two identical POSTs and prints its five values
  twice: the script keeps no memory of earlier scans.
\<close>

theorem run_loop_same_line_twice:
  "nl \<notin> set l \<Longrightarrow> parse_line (l @ [nl]) = Inr r \<Longrightarrow> scan_utf8 r \<Longrightarrow>
   srv (scan_request r) = Inr resp \<Longrightarrow>
   run_loop 2 srv (w\<lparr>serial_in := line_events [l, l] @ evs\<rparr>) =
     Next (w\<lparr>serial_in := evs, stdout := stdout w @ transcript r resp @ transcript r resp,
            sent := sent w @ [scan_request r, scan_request r]\<rparr>)"
proof -
  assume l: "nl \<notin> set l" and p: "parse_line (l @ [nl]) = Inr r" and u: "scan_utf8 r"
    and s: "srv (scan_request r) = Inr resp"
  have "run_loop (length [l, l]) srv (w\<lparr>serial_in := line_events [l, l] @ evs\<rparr>) =
     (case forward_lines srv [l, l] of
        (qs, ps, Done) \<Rightarrow> Next (w\<lparr>serial_in := evs, stdout := stdout w @ ps, sent := sent w @ qs\<rparr>)
      | (qs, ps, Stopped e rest) \<Rightarrow>
          Crashed e (w\<lparr>serial_in := line_events rest @ evs, stdout := stdout w @ ps,
                       sent := sent w @ qs\<rparr>))"
    using l by (intro run_loop_forward) simp
  then show ?thesis using p u s by (simp add: numeral_2_eq_2)
qed

theorem run_loop_same_line_twice_witness:
  "run_loop 2 (\<lambda>q. Inr \<lparr>status_code = 201, resp_text = ''created''\<rparr>)
     \<lparr>serial_in = line_events [''1234567890123456ABCDEFGHIJKLMNOPxQ'', ''1234567890123456ABCDEFGHIJKLMNOPxQ''],
      stdout = [], sent = []\<rparr> =
   Next \<lparr>serial_in = [],
     stdout = transcript \<lparr>bag_id = ''1234567890123456'', user_id = ''ABCDEFGHIJKLMNOP'', scanner_id = ''Q''\<rparr>
          \<lparr>status_code = 201, resp_text = ''created''\<rparr> @
        transcript \<lparr>bag_id = ''1234567890123456'', user_id = ''ABCDEFGHIJKLMNOP'', scanner_id = ''Q''\<rparr>
          \<lparr>status_code = 201, resp_text = ''created''\<rparr>,
     sent = [scan_request \<lparr>bag_id = ''1234567890123456'', user_id = ''ABCDEFGHIJKLMNOP'', scanner_id = ''Q''\<rparr>,
             scan_request \<lparr>bag_id = ''1234567890123456'', user_id = ''ABCDEFGHIJKLMNOP'', scanner_id = ''Q''\<rparr>]\<rparr>"
  using run_loop_same_line_twice [where l = "''1234567890123456ABCDEFGHIJKLMNOPxQ''"
      and r = "\<lparr>bag_id = ''1234567890123456'', user_id = ''ABCDEFGHIJKLMNOP'', scanner_id = ''Q''\<rparr>"
      and srv = "\<lambda>q. Inr \<lparr>status_code = 201, resp_text = ''created''\<rparr>"
      and resp = "\<lparr>status_code = 201, resp_text = ''created''\<rparr>"
      and w = "\<lparr>serial_in = [], stdout = [], sent = []\<rparr>" and evs = "[]"]
  by (simp add: parse_line_clean strip_dashes_filter scan_utf8_def utf8_valid_ascii)

end
