(* ===== verification/Console.thy ===== *)
theory Console
  imports Driver
begin

text \<open>
  The text the script writes to standard output. A Python 2 \<open>print x\<close> statement writes
  \<open>str(x)\<close> and a newline: a \<open>str\<close> as its bytes, the data dict as its repr
  (\<open>py_repr\<close>). The response text \<open>r.text\<close> is taken as the bytes printed, as on a
  UTF-8 terminal.
\<close>

definition print_text :: "printed \<Rightarrow> string option" where
  "print_text p =
     (case p of
        PrintStr s \<Rightarrow> Some (s @ [nl])
      | PrintRepr j \<Rightarrow> map_option (\<lambda>t. t @ [nl]) (py_repr j))"

fun console :: "printed list \<Rightarrow> string option" where
  "console [] = Some []"
| "console (p # ps) = (case print_text p of None \<Rightarrow> None | Some t \<Rightarrow> map_option ((@) t) (console ps))"

section \<open>The text of a pass\<close>

text \<open>
  C31. One answered pass writes six lines: the bag id, the user id, the scanner id, the
  repr of the data dict (keys in hash order, each field as Python 2 quotes it) and the
  response text.
\<close>

theorem console_transcript:
  "console (transcript r resp) = Some (bag_id r @ [nl] @ user_id r @ [nl] @ scanner_id r @ [nl] @
     ''{'scanner_id': '' @ str_repr (scanner_id r) @ '', 'bag': {'user_id': '' @ str_repr (user_id r) @
     '', 'bag_id': '' @ str_repr (bag_id r) @ ''}}'' @ [nl] @ resp_text resp @ [nl])"
  by (simp add: transcript_def field_prints_def print_text_def request_data_def py_order_data_keys
      py_order_bag_keys str_repr_plain s_char_def)


end
