(* ===== verification/Crashes.thy ===== *)
theory Crashes
  imports Driver
begin

text \<open>
  How a pass of the loop can end the script, and what it leaves behind: the exception
  raised, the requests posted and the values printed.
\<close>

lemma read_until_Failed: "read_until acc evs = Failed e rest \<Longrightarrow> e = SerialException"
  by (induction acc evs rule: read_until.induct) (auto split: if_splits)

text \<open>What one pass that raises leaves behind.\<close>

lemma loop_body_Crashed:
  assumes h: "loop_body srv w = Crashed e w'"
  shows "(sent w' = sent w \<and> e \<in> {SerialException, IndexError, UnicodeDecodeError}) \<or>
     (\<exists>r. srv (scan_request r) = Inl e \<and> sent w' = sent w @ [scan_request r] \<and>
          stdout w' = stdout w @ field_prints r)"
proof (cases "readline (serial_in w)")
  case (Got raw rest)
  show ?thesis
  proof (cases "parse_line raw")
    case (Inl e1)
    then have "e1 = IndexError" by (auto simp: parse_line_clean Let_def split: if_splits)
    with h Inl show ?thesis by (auto simp: loop_body_Got_bad [OF Got Inl])
  next
    case (Inr r)
    show ?thesis
    proof (cases "scan_utf8 r")
      case True
      show ?thesis
        using h by (cases "srv (scan_request r)") (auto simp: loop_body_Got_parsed [OF Got Inr True] emit_def)
    next
      case False
      with h show ?thesis by (auto simp: loop_body_Got_unencodable [OF Got Inr])
    qed
  qed
next
  case Blocked
  with h show ?thesis by (simp add: loop_body_def)
next
  case (Failed e1 rest)
  then have "e1 = SerialException" by (auto simp: readline_def dest: read_until_Failed)
  with h Failed show ?thesis by (auto simp: loop_body_def)
qed

text \<open>
  C34. However long the script has run, when it raises, the requests it posted are those
  of passes whose post was answered, in order, followed by at most one more: the request
  whose post raised the exception. A device error, a short line or a field that is not
  UTF-8 raises before anything more is posted.
\<close>

theorem run_loop_Crashed:
  "run_loop n srv w = Crashed e w' \<Longrightarrow>
   \<exists>hist extra. sent w' = sent w @ map (\<lambda>(r, resp). scan_request r) hist @ extra \<and>
     list_all (\<lambda>(r, resp). srv (scan_request r) = Inr resp) hist \<and>
     (extra = [] \<and> e \<in> {SerialException, IndexError, UnicodeDecodeError} \<or>
      (\<exists>r. extra = [scan_request r] \<and> srv (scan_request r) = Inl e))"
proof (induction n arbitrary: w)
  case 0
  then show ?case by simp
next
  case (Suc n)
  show ?case
  proof (cases "loop_body srv w")
    case (Next w1)
    with Suc.prems have "run_loop n srv w1 = Crashed e w'" by simp
    from Suc.IH [OF this] obtain hist extra where
      h: "sent w' = sent w1 @ map (\<lambda>(r, resp). scan_request r) hist @ extra"
         "list_all (\<lambda>(r, resp). srv (scan_request r) = Inr resp) hist"
         "extra = [] \<and> e \<in> {SerialException, IndexError, UnicodeDecodeError} \<or>
          (\<exists>r. extra = [scan_request r] \<and> srv (scan_request r) = Inl e)"
      by blast
    from Next obtain r resp where
      s: "srv (scan_request r) = Inr resp" "sent w1 = sent w @ [scan_request r]"
      unfolding loop_body_Next by auto
    show ?thesis using h s by (intro exI [of _ "(r, resp) # hist"] exI [of _ extra]) simp
  next
    case (Waiting w1)
    with Suc.prems show ?thesis by simp
  next
    case (Crashed e1 w1)
    with Suc.prems have "loop_body srv w = Crashed e w'" by simp
    from loop_body_Crashed [OF this] show ?thesis
    proof (elim disjE exE conjE)
      assume "sent w' = sent w" "e \<in> {SerialException, IndexError, UnicodeDecodeError}"
      then show ?thesis by (intro exI [of _ "[]"] exI [of _ "[]"]) simp
    next
      fix r assume "srv (scan_request r) = Inl e" "sent w' = sent w @ [scan_request r]"
      then show ?thesis by (intro exI [of _ "[]"] exI [of _ "[scan_request r]"]) auto
    qed
  qed
qed

theorem run_loop_Crashed_witness:
  "run_loop 1 (\<lambda>q. Inl ConnectionError)
     \<lparr>serial_in = feed ''1234567890123456ABCDEFGHIJKLMNOPxQ'' @ [Byte nl], stdout = [], sent = []\<rparr> =
   Crashed ConnectionError
     \<lparr>serial_in = [], stdout = field_prints \<lparr>bag_id = ''1234567890123456'', user_id = ''ABCDEFGHIJKLMNOP'', scanner_id = ''Q''\<rparr>, sent = [scan_request \<lparr>bag_id = ''1234567890123456'', user_id = ''ABCDEFGHIJKLMNOP'', scanner_id = ''Q''\<rparr>]\<rparr> \<and>
   (\<exists>hist extra. [scan_request \<lparr>bag_id = ''1234567890123456'', user_id = ''ABCDEFGHIJKLMNOP'', scanner_id = ''Q''\<rparr>] = [] @ map (\<lambda>(r, resp). scan_request r) hist @ extra \<and>
     list_all (\<lambda>(r, resp). (\<lambda>q. Inl ConnectionError) (scan_request r) = (Inr resp :: http_response result)) hist \<and>
     (extra = [] \<and> ConnectionError \<in> {SerialException, IndexError, UnicodeDecodeError} \<or>
      (\<exists>r. extra = [scan_request r] \<and> (\<lambda>q. Inl ConnectionError) (scan_request r) = (Inl ConnectionError :: http_response result))))"
proof -
  have h: "run_loop 1 (\<lambda>q. Inl ConnectionError)
     \<lparr>serial_in = feed ''1234567890123456ABCDEFGHIJKLMNOPxQ'' @ [Byte nl], stdout = [], sent = []\<rparr> =
   Crashed ConnectionError
     \<lparr>serial_in = [], stdout = field_prints \<lparr>bag_id = ''1234567890123456'', user_id = ''ABCDEFGHIJKLMNOP'', scanner_id = ''Q''\<rparr>, sent = [scan_request \<lparr>bag_id = ''1234567890123456'', user_id = ''ABCDEFGHIJKLMNOP'', scanner_id = ''Q''\<rparr>]\<rparr>"
    by (simp add: loop_body_def readline_def parse_line_clean strip_dashes_filter
        Let_def emit_def field_prints_def scan_request_def bag_request_def
        json_dumps_request_data_plain s_char_def)
  from h run_loop_Crashed [OF h] show ?thesis by simp
qed

end
