(* ===== verification/JsonRead.thy ===== *)
theory JsonRead
  imports Render
begin

text \<open>
  A JSON reader for the bodies \<open>json.dumps\<close> produces (RFC 8259 strings and objects),
  the reference against which the body is checked: what a server reads from it.
\<close>

datatype jval = JSv "nat list" | JOv "(nat list \<times> jval) list"

definition hexval :: "char \<Rightarrow> nat option" where
  "hexval c =
     (let n = of_char c
      in if 48 \<le> n \<and> n \<le> 57 then Some (n - 48)
         else if 97 \<le> n \<and> n \<le> 102 then Some (n - 87)
         else if 65 \<le> n \<and> n \<le> 70 then Some (n - 55) else None)"

fun hexs_val :: "nat \<Rightarrow> string \<Rightarrow> nat option" where
  "hexs_val acc [] = Some acc"
| "hexs_val acc (c # cs) = (case hexval c of None \<Rightarrow> None | Some d \<Rightarrow> hexs_val (acc * 16 + d) cs)"

definition hex4_val :: "string \<Rightarrow> nat option" where
  "hex4_val cs = (if length cs = 4 then hexs_val 0 cs else None)"

definition esc_char :: "char \<Rightarrow> nat option" where
  "esc_char e =
     (if e = CHR 0x22 then Some 34 else if e = CHR 0x5C then Some 92 else if e = CHR ''/'' then Some 47
      else if e = CHR ''b'' then Some 8 else if e = CHR ''f'' then Some 12
      else if e = CHR ''n'' then Some 10 else if e = CHR ''r'' then Some 13
      else if e = CHR ''t'' then Some 9 else None)"

definition low_surrogate_at :: "string \<Rightarrow> nat option" where
  "low_surrogate_at r =
     (if take 2 r = [CHR 0x5C, CHR ''u'']
      then (case hex4_val (take 4 (drop 2 r)) of
              Some l \<Rightarrow> if 56320 \<le> l \<and> l < 57344 then Some l else None
            | None \<Rightarrow> None)
      else None)"

function pstr :: "string \<Rightarrow> (nat list \<times> string) option" where
  "pstr [] = None"
| "pstr (c # r) =
     (if c = CHR 0x22 then Some ([], r)
      else if c = CHR 0x5C then
        (case r of
           [] \<Rightarrow> None
         | e # r' \<Rightarrow>
             if e = CHR ''u'' then
               (case hex4_val (take 4 r') of
                  None \<Rightarrow> None
                | Some h \<Rightarrow>
                    (if 55296 \<le> h \<and> h < 56320
                     then (case low_surrogate_at (drop 4 r') of
                             Some l \<Rightarrow> map_option (apfst (Cons (65536 + (h - 55296) * 1024 + (l - 56320))))
                                          (pstr (drop 10 r'))
                           | None \<Rightarrow> map_option (apfst (Cons h)) (pstr (drop 4 r')))
                     else map_option (apfst (Cons h)) (pstr (drop 4 r'))))
             else (case esc_char e of None \<Rightarrow> None | Some v \<Rightarrow> map_option (apfst (Cons v)) (pstr r')))
      else if of_char c < (32::nat) then None
      else map_option (apfst (Cons (of_char c))) (pstr r))"
  by pat_completeness auto
termination
  by (relation "measure length") auto

definition is_ws :: "char \<Rightarrow> bool" where
  "is_ws c \<longleftrightarrow> c = CHR '' '' \<or> c = CHR 0x09 \<or> c = CHR 0x0A \<or> c = CHR 0x0D"

fun skip_ws :: "string \<Rightarrow> string" where
  "skip_ws [] = []"
| "skip_ws (c # r) = (if is_ws c then skip_ws r else c # r)"

fun pval :: "nat \<Rightarrow> string \<Rightarrow> (jval \<times> string) option"
and pmembers :: "nat \<Rightarrow> string \<Rightarrow> ((nat list \<times> jval) list \<times> string) option" where
  "pval 0 s = None"
| "pval (Suc n) s =
     (case skip_ws s of
        [] \<Rightarrow> None
      | c # r \<Rightarrow>
          if c = CHR 0x22 then map_option (apfst JSv) (pstr r)
          else if c = CHR ''{'' then
            (case skip_ws r of
               [] \<Rightarrow> None
             | d # r' \<Rightarrow> if d = CHR ''}'' then Some (JOv [], r') else map_option (apfst JOv) (pmembers n r))
          else None)"
| "pmembers 0 s = None"
| "pmembers (Suc n) s =
     (case skip_ws s of
        [] \<Rightarrow> None
      | c # r \<Rightarrow>
          if c \<noteq> CHR 0x22 then None
          else (case pstr r of
                  None \<Rightarrow> None
                | Some (k, r1) \<Rightarrow>
                    (case skip_ws r1 of
                       [] \<Rightarrow> None
                     | d # r2 \<Rightarrow>
                         if d \<noteq> CHR '':'' then None
                         else (case pval n r2 of
                                 None \<Rightarrow> None
                               | Some (v, r3) \<Rightarrow>
                                   (case skip_ws r3 of
                                      [] \<Rightarrow> None
                                    | e # r4 \<Rightarrow>
                                        if e = CHR '','' then map_option (apfst (Cons (k, v))) (pmembers n r4)
                                        else if e = CHR ''}'' then Some ([(k, v)], r4) else None)))))"

definition json_read :: "string \<Rightarrow> jval option" where
  "json_read s = (case pval (length s) s of Some (v, r) \<Rightarrow> if skip_ws r = [] then Some v else None | None \<Rightarrow> None)"

definition unicode_scalar :: "nat \<Rightarrow> bool" where
  "unicode_scalar c \<longleftrightarrow> c < 1114112 \<and> \<not> (55296 \<le> c \<and> c < 57344)"

section \<open>Lemmas\<close>

lemma hexval_hex_digit [simp]: "hexval (hex_digit n) = Some (n mod 16)"
proof -
  have "n mod 16 < 16" by simp
  then have "n mod 16 \<in> {0..<16}" by simp
  then show ?thesis
    by (auto simp: hex_digit_def hexval_def atLeastLessThan_nat_numeral nth_Cons')
qed

lemma div16_step: "(x::nat) div (k * 16) * 16 + x div k mod 16 = x div k"
  by (simp add: div_mult2_eq)

lemma hex4_val_hex4: "c < 65536 \<Longrightarrow> hex4_val (hex4 c) = Some c"
proof -
  assume c: "c < 65536"
  then have a: "c div 4096 mod 16 = c div 4096" by simp
  have "((c div 4096 * 16 + c div 256 mod 16) * 16 + c div 16 mod 16) * 16 + c mod 16 = c"
    using div16_step [of c 256] div16_step [of c 16] div16_step [of c 1] by simp
  with a show ?thesis by (simp add: hex4_val_def hex4_def)
qed

lemma length_hex4 [simp]: "length (hex4 n) = 4"
  by (simp add: hex4_def)

lemma pstr_plain_char:
  "of_char c \<ge> (32::nat) \<Longrightarrow> c \<noteq> CHR 0x22 \<Longrightarrow> c \<noteq> CHR 0x5C \<Longrightarrow>
   pstr (c # rest) = map_option (apfst (Cons (of_char c))) (pstr rest)"
  by simp

lemma pstr_short_escape:
  "esc_char e = Some v \<Longrightarrow> e \<noteq> CHR ''u'' \<Longrightarrow>
   pstr (CHR 0x5C # e # rest) = map_option (apfst (Cons v)) (pstr rest)"
  by simp

lemma pstr_u_escape:
  "c < 65536 \<Longrightarrow> \<not> (55296 \<le> c \<and> c < 56320) \<Longrightarrow>
   pstr (CHR 0x5C # CHR ''u'' # hex4 c @ rest) = map_option (apfst (Cons c)) (pstr rest)"
  by (auto simp: hex4_val_hex4)

lemma pstr_pair_escape:
  assumes "65536 \<le> c" "c < 1114112"
  shows "pstr ([CHR 0x5C, CHR ''u''] @ hex4 (55296 + (c - 65536) div 1024) @
               [CHR 0x5C, CHR ''u''] @ hex4 (56320 + (c - 65536) mod 1024) @ rest) =
         map_option (apfst (Cons c)) (pstr rest)"
proof -
  let ?h = "55296 + (c - 65536) div 1024" and ?l = "56320 + (c - 65536) mod 1024"
  have h: "?h < 56320" using assms by simp
  have l: "?l < 57344" by simp
  have hv: "hex4_val (hex4 ?h) = Some ?h" using h by (intro hex4_val_hex4) simp
  have lv: "hex4_val (hex4 ?l) = Some ?l" using l by (intro hex4_val_hex4) simp
  have low: "low_surrogate_at ([CHR 0x5C, CHR ''u''] @ hex4 ?l @ rest) = Some ?l"
    using lv by (simp add: low_surrogate_at_def)
  have val: "65536 + (?h - 55296) * 1024 + (?l - 56320) = c"
    using assms by simp
  show ?thesis using hv low val h
    by (simp del: pstr.simps(2) add: pstr.simps(2) [of "CHR 0x5C"]) 
qed

lemma pstr_s_char:
  assumes "s_char c"
  shows "pstr (char_of c # rest) = map_option (apfst (Cons c)) (pstr rest)"
proof -
  have oc: "of_char (char_of c) = c" using assms by (simp add: s_char_def)
  have q: "char_of c \<noteq> CHR 0x22"
  proof
    assume "char_of c = CHR 0x22"
    then have "of_char (char_of c) = (34::nat)" by simp
    with oc assms show False by (simp add: s_char_def)
  qed
  have b: "char_of c \<noteq> CHR 0x5C"
  proof
    assume "char_of c = CHR 0x5C"
    then have "of_char (char_of c) = (92::nat)" by simp
    with oc assms show False by (simp add: s_char_def)
  qed
  from oc q b assms show ?thesis by (simp add: pstr_plain_char s_char_def)
qed

lemma pstr_escape_cp:
  assumes "c < 1114112" and "\<not> (55296 \<le> c \<and> c < 57344)"
  shows "pstr (json_escape_cp c @ rest) = map_option (apfst (Cons c)) (pstr rest)"
proof -
  consider "s_char c" | "\<not> s_char c" "c \<in> {92, 34, 8, 12, 10, 13, 9}"
    | "\<not> s_char c" "c \<notin> {92, 34, 8, 12, 10, 13, 9}" "c < 65536"
    | "\<not> s_char c" "c \<notin> {92, 34, 8, 12, 10, 13, 9}" "\<not> c < 65536" by blast
  then show ?thesis
  proof cases
    case 1
    then have "json_escape_cp c = [char_of c]" by (simp add: json_escape_cp_def)
    with 1 show ?thesis by (simp add: pstr_s_char del: pstr.simps)
  next
    case 2
    then show ?thesis by (auto simp: json_escape_cp_def esc_char_def)
  next
    case 3
    then have "json_escape_cp c = CHR 0x5C # CHR ''u'' # hex4 c" by (simp add: json_escape_cp_def)
    moreover have "\<not> (55296 \<le> c \<and> c < 56320)" using assms(2) by linarith
    ultimately show ?thesis using 3 by (simp add: pstr_u_escape del: pstr.simps)
  next
    case 4
    with assms show ?thesis by (simp add: json_escape_cp_def pstr_pair_escape [simplified])
  qed
qed

lemma pstr_json_quote_body:
  "list_all (\<lambda>c. c < 1114112 \<and> \<not> (55296 \<le> c \<and> c < 57344)) cps \<Longrightarrow>
   pstr (concat (map json_escape_cp cps) @ CHR 0x22 # rest) = Some (cps, rest)"
  by (induction cps) (simp_all add: pstr_escape_cp)


lemma pstr_json_quote:
  "list_all unicode_scalar cps \<Longrightarrow> json_quote cps = CHR 0x22 # q \<Longrightarrow> pstr (q @ rest) = Some (cps, rest)"
  by (auto simp: json_quote_def unicode_scalar_def list_all_iff intro!: pstr_json_quote_body)

lemma pstr_close: "pstr (CHR 0x22 # r) = Some ([], r)"
  by simp

lemma json_read_body:
  assumes b: "list_all unicode_scalar bc" and u: "list_all unicode_scalar uc" and s: "list_all unicode_scalar sc"
  shows \<open>json_read (''{"scanner_id": '' @ json_quote sc @ '', "bag": {"user_id": '' @ json_quote uc @
           '', "bag_id": '' @ json_quote bc @ ''}}'') =
    Some (JOv [(map of_char ''scanner_id'', JSv sc),
               (map of_char ''bag'', JOv [(map of_char ''user_id'', JSv uc), (map of_char ''bag_id'', JSv bc)])])\<close>
proof -
  obtain qb qu qs where qb: "json_quote bc = CHR 0x22 # qb" and qu: "json_quote uc = CHR 0x22 # qu"
    and qs: "json_quote sc = CHR 0x22 # qs" by (simp add: json_quote_def)
  note p = pstr_json_quote [OF b qb] pstr_json_quote [OF u qu] pstr_json_quote [OF s qs]
  let ?t = \<open>''{"scanner_id": '' @ json_quote sc @ '', "bag": {"user_id": '' @ json_quote uc @
           '', "bag_id": '' @ json_quote bc @ ''}}''\<close>
  have "length ?t = Suc (Suc (Suc (Suc (Suc (Suc (Suc (Suc (length ?t - 8))))))))" by simp
  then show ?thesis
    by (simp add: json_read_def qb qu qs p is_ws_def pstr_plain_char pstr_close del: pstr.simps)
qed

section \<open>The server reads the fields back\<close>

text \<open>
  C27. Round trip through the wire: when the three fields are UTF-8 whose code points are
  Unicode scalar values, the body \<open>requests\<close> sends is valid JSON, and reading it
  gives an object with \<open>scanner_id\<close> and \<open>bag\<close> holding \<open>user_id\<close> and
  \<open>bag_id\<close>, each exactly the code points of its field.
\<close>

theorem json_body_read:
  "utf8_decode (map of_char b) = Some bc \<Longrightarrow> utf8_decode (map of_char u) = Some uc \<Longrightarrow>
   utf8_decode (map of_char s) = Some sc \<Longrightarrow> list_all unicode_scalar (bc @ uc @ sc) \<Longrightarrow>
   \<exists>t. json_dumps (request_data b u s) = Some (Inr t) \<and>
     json_read t = Some (JOv [(map of_char ''scanner_id'', JSv sc),
       (map of_char ''bag'', JOv [(map of_char ''user_id'', JSv uc), (map of_char ''bag_id'', JSv bc)])])"
proof -
  assume db: "utf8_decode (map of_char b) = Some bc" and du: "utf8_decode (map of_char u) = Some uc"
    and ds: "utf8_decode (map of_char s) = Some sc" and sc: "list_all unicode_scalar (bc @ uc @ sc)"
  have d: \<open>json_dumps (request_data b u s) = Some (Inr (''{"scanner_id": '' @ json_quote sc @
    '', "bag": {"user_id": '' @ json_quote uc @ '', "bag_id": '' @ json_quote bc @ ''}}''))\<close>
    by (rule json_dumps_request_data_Inr) (simp_all add: json_str_decoded db du ds)
  from sc have "list_all unicode_scalar bc" "list_all unicode_scalar uc" "list_all unicode_scalar sc"
    by simp_all
  from json_read_body [OF this] d show ?thesis by blast
qed

theorem json_body_read_witness:
  "utf8_decode (map of_char ''1234567890123456'') = Some (map of_char ''1234567890123456'') \<and>
   utf8_decode (map of_char (''caf'' @ [CHR 0xC3, CHR 0xA9])) = Some [99, 97, 102, 233] \<and>
   utf8_decode (map of_char ''Q'') = Some [81] \<and>
   list_all unicode_scalar (map of_char ''1234567890123456'' @ [99, 97, 102, 233] @ [81]) \<and>
   (\<exists>t. json_dumps (request_data ''1234567890123456'' (''caf'' @ [CHR 0xC3, CHR 0xA9]) ''Q'') = Some (Inr t) \<and>
     json_read t = Some (JOv [(map of_char ''scanner_id'', JSv [81]),
       (map of_char ''bag'', JOv [(map of_char ''user_id'', JSv [99, 97, 102, 233]),
                                  (map of_char ''bag_id'', JSv (map of_char ''1234567890123456''))])]))"
proof -
  have hb: "utf8_decode (map of_char ''1234567890123456'') = Some (map of_char ''1234567890123456'')"
    by simp
  have hu: "utf8_decode (map of_char (''caf'' @ [CHR 0xC3, CHR 0xA9])) = Some [99, 97, 102, 233]"
    by (simp add: utf8_len_def is_cont_def utf8_bad_second_def utf8_value_def)
  have hs: "utf8_decode (map of_char ''Q'') = Some [81]" by simp
  have hv: "list_all unicode_scalar (map of_char ''1234567890123456'' @ [99, 97, 102, 233] @ [81])"
    by (simp add: unicode_scalar_def)
  show ?thesis using hb hu hs hv json_body_read [OF hb hu hs hv] by blast
qed

end
