(* ===== verification/JsonRoundtrip.thy ===== *)
theory JsonRoundtrip
  imports JsonRead
begin

text \<open>
  Every JSON body the C encoder of \<open>json.dumps\<close> produces (see \<open>Render.json_dumps\<close>), for any
  nesting of dicts and strings, not only the script's two-level \<open>data\<close> dict, reads back with the
  reference reader \<open>JsonRead.json_read\<close> to the value it encodes.  The value a \<open>json\<close> term
  denotes is \<open>json_val\<close>: every string decoded from UTF-8 to its code points, every dict as
  its items in CPython's iteration order.  The proof goes through fuel monotonicity of the reader
  (\<open>pval_mono\<close>), the invariance of the dict's slot order under a change of the values
  (\<open>py_order_map_vals\<close>), and a member-list lemma by induction on the items
  (\<open>pmembers_items\<close>).
\<close>

section \<open>Definitions\<close>

text \<open>\<open>map_vals f t\<close> applies \<open>f\<close> to the value of every occupied slot of a dict table.\<close>

definition map_vals :: "('a \<Rightarrow> 'b) \<Rightarrow> 'a table \<Rightarrow> 'b table" where
  "map_vals f t = map (map_option (\<lambda>(k, v). (k, f v))) t"

text \<open>
  A decoded value whose code points are all Unicode scalar values: what the escapes of
  \<open>json_escape_cp\<close> reproduce exactly (a lone surrogate would pair with a following one).
\<close>

fun jscalar :: "jval \<Rightarrow> bool" where
  "jscalar (JSv cps) = list_all unicode_scalar cps"
| "jscalar (JOv ms) = list_all (\<lambda>kv. list_all unicode_scalar (fst kv) \<and> jscalar (snd kv)) ms"

text \<open>The dict keys decoded to code points, as the encoder does with \<open>json_str\<close>.\<close>

fun decode_keys :: "(string \<times> jval) list \<Rightarrow> (nat list \<times> jval) list option" where
  "decode_keys [] = Some []"
| "decode_keys ((k, v) # ms) =
     (case utf8_decode (map of_char k) of
        None \<Rightarrow> None
      | Some kc \<Rightarrow> map_option (Cons (kc, v)) (decode_keys ms))"

text \<open>
  The value a \<open>json\<close> term denotes: strings decoded from UTF-8, dicts listed in CPython's
  iteration order; None where the encoder raises (an undecodable string) or the table overflows.
\<close>

fun json_val :: "json \<Rightarrow> jval option"
and json_val_members :: "(string \<times> json) list \<Rightarrow> (string \<times> jval) list option" where
  "json_val (JStr s) = map_option JSv (utf8_decode (map of_char s))"
| "json_val (JObj kvs) =
     (case json_val_members kvs of
        None \<Rightarrow> None
      | Some ms \<Rightarrow> (case py_order ms of None \<Rightarrow> None | Some items \<Rightarrow> map_option JOv (decode_keys items)))"
| "json_val_members [] = Some []"
| "json_val_members ((k, v) # kvs) =
     (case json_val v of None \<Rightarrow> None | Some r \<Rightarrow> map_option (Cons (k, r)) (json_val_members kvs))"

section \<open>Lemmas\<close>

lemma pval_step:
  assumes m: "\<And>r z. pmembers n r = Some z \<Longrightarrow> pmembers m r = Some z"
  shows "pval (Suc n) s = Some x \<Longrightarrow> pval (Suc m) s = Some x"
  using m by (auto split: list.split_asm if_split_asm)

lemma pmembers_step:
  assumes v: "\<And>r z. pval n r = Some z \<Longrightarrow> pval m r = Some z"
    and m: "\<And>r z. pmembers n r = Some z \<Longrightarrow> pmembers m r = Some z"
  shows "pmembers (Suc n) s = Some y \<Longrightarrow> pmembers (Suc m) s = Some y"
  using v m by (auto split: list.split_asm if_split_asm option.split_asm)

lemma pval_mono_aux:
  "\<forall>m. n \<le> m \<longrightarrow> (\<forall>s x. pval n s = Some x \<longrightarrow> pval m s = Some x) \<and>
     (\<forall>s y. pmembers n s = Some y \<longrightarrow> pmembers m s = Some y)"
proof (induction n)
  case 0
  then show ?case by simp
next
  case (Suc n)
  show ?case
  proof (rule allI, rule impI)
    fix m assume "Suc n \<le> m"
    then obtain m' where m: "m = Suc m'" and nm: "n \<le> m'" by (cases m) auto
    from Suc.IH nm have v: "\<And>r z. pval n r = Some z \<Longrightarrow> pval m' r = Some z"
      and w: "\<And>r z. pmembers n r = Some z \<Longrightarrow> pmembers m' r = Some z" by blast+
    show "(\<forall>s x. pval (Suc n) s = Some x \<longrightarrow> pval m s = Some x) \<and>
      (\<forall>s y. pmembers (Suc n) s = Some y \<longrightarrow> pmembers m s = Some y)"
      unfolding m using pval_step [OF w] pmembers_step [OF v w] by blast
  qed
qed

lemma pval_mono: "pval n s = Some x \<Longrightarrow> n \<le> m \<Longrightarrow> pval m s = Some x"
  using pval_mono_aux by blast

lemma pmembers_mono: "pmembers n s = Some y \<Longrightarrow> n \<le> m \<Longrightarrow> pmembers m s = Some y"
  using pval_mono_aux by blast

lemma map_vals_simps [simp]:
  "length (map_vals f t) = length t"
  "j < length t \<Longrightarrow> map_vals f t ! j = map_option (\<lambda>(k, v). (k, f v)) (t ! j)"
  by (simp_all add: map_vals_def)

lemma probe_map_vals: "length t = 8 \<Longrightarrow> probe n (map_vals f t) k i p = probe n t k i p"
proof (induction n arbitrary: i p)
  case (Suc n)
  then show ?case by (auto simp: probe_Suc Let_def split: option.split)
qed simp

lemma find_slot_map_vals: "length t = 8 \<Longrightarrow> find_slot (map_vals f t) k = find_slot t k"
  by (auto simp: find_slot_def Let_def probe_map_vals split: option.split)

lemma fill_map_vals: "fill (map_vals f t) = fill t"
  by (induction t) (auto simp: fill_def map_vals_def)

lemma map_vals_update: "map_vals f (t[j := Some (k, v)]) = (map_vals f t)[j := Some (k, f v)]"
  by (simp add: map_vals_def map_update)

lemma dict_setitem_map_vals:
  "length t = 8 \<Longrightarrow> dict_setitem (map_vals f t) k (f v) = map_option (map_vals f) (dict_setitem t k v)"
proof (cases "find_slot t k")
  case (Some j)
  assume len: "length t = 8"
  from find_slot_Some [OF Some] have j: "j < 8" by (simp add: slot_ok_def)
  have f: "fill ((map_vals f t)[j := Some (k, f v)]) = fill (t[j := Some (k, v)])"
    by (simp add: map_vals_update [symmetric] fill_map_vals)
  show ?thesis
    using len j Some by (cases "t ! j") (simp_all add: dict_setitem_def find_slot_map_vals Let_def f map_vals_update)
qed (simp add: dict_setitem_def find_slot_map_vals)

lemma dict_setitem_length: "dict_setitem t k v = Some t' \<Longrightarrow> length t' = length t"
  by (auto dest!: dict_setitem_Some)

lemma dict_build_map_vals:
  "length t = 8 \<Longrightarrow>
   dict_build (map_vals f t) (map (\<lambda>(k, v). (k, f v)) kvs) = map_option (map_vals f) (dict_build t kvs)"
proof (induction t kvs rule: dict_build.induct)
  case (2 t k v kvs)
  show ?case
  proof (cases "dict_setitem t k v")
    case (Some t1)
    with "2.prems" have "length t1 = 8" by (simp add: dict_setitem_length)
    with Some "2.IH" [OF Some] "2.prems" show ?thesis by (simp add: dict_setitem_map_vals)
  qed (use "2.prems" in \<open>simp add: dict_setitem_map_vals\<close>)
qed simp

lemma dict_items_map_vals: "dict_items (map_vals f t) = map (\<lambda>(k, v). (k, f v)) (dict_items t)"
  by (induction t) (auto simp: map_vals_def dict_items_def)

lemma py_order_map_vals:
  "py_order (map (\<lambda>(k, v). (k, f v)) kvs) = map_option (map (\<lambda>(k, v). (k, f v))) (py_order kvs)"
proof -
  have e: "map_vals f empty_table = empty_table" by (simp add: empty_table_def map_vals_def)
  have l: "length (empty_table :: (string \<times> _) option list) = 8" by (simp add: empty_table_def)
  from dict_build_map_vals [OF l, of f kvs] show ?thesis
    by (simp add: py_order_def e option.map_comp comp_def dict_items_map_vals)
qed

lemma json_members_eq:
  "json_members kvs = Some ms \<Longrightarrow>
   ms = map (\<lambda>(k, v). (k, the (json_dumps v))) kvs \<and> list_all (\<lambda>(k, v). json_dumps v \<noteq> None) kvs"
  by (induction kvs arbitrary: ms) (auto split: option.splits)

lemma json_val_members_eq:
  "json_val_members kvs = Some ms \<Longrightarrow>
   ms = map (\<lambda>(k, v). (k, the (json_val v))) kvs \<and> list_all (\<lambda>(k, v). json_val v \<noteq> None) kvs"
  by (induction kvs arbitrary: ms) (auto split: option.splits)

lemma pval_ws: "is_ws c \<Longrightarrow> pval n (c # s) = pval n s"
  by (cases n) simp_all

lemma pmembers_ws: "is_ws c \<Longrightarrow> pmembers n (c # s) = pmembers n s"
  by (cases n) simp_all

lemma json_quote_Cons: "\<exists>q. json_quote cps = CHR 0x22 # q"
  by (simp add: json_quote_def)

lemma pmembers_member:
  assumes kt: "json_str k = Inr kt" and kc: "utf8_decode (map of_char k) = Some kc"
    and sk: "list_all unicode_scalar kc"
    and v: "pval nv (vt @ r) = Some (vv, r)" and nv: "nv \<le> n"
  shows "pmembers (Suc n) (kt @ '': '' @ vt @ r) =
    (case skip_ws r of
       [] \<Rightarrow> None
     | e # r4 \<Rightarrow> if e = CHR '','' then map_option (apfst (Cons (kc, vv))) (pmembers n r4)
                 else if e = CHR ''}'' then Some ([(kc, vv)], r4) else None)"
proof -
  obtain q where q: "json_quote kc = CHR 0x22 # q" using json_quote_Cons by blast
  have kt': "kt = CHR 0x22 # q" using kt kc q by (simp add: json_str_decoded)
  have p: "pstr (q @ '': '' @ vt @ r) = Some (kc, '': '' @ vt @ r)"
    by (rule pstr_json_quote [OF sk q])
  have v': "pval n (CHR '' '' # vt @ r) = Some (vv, r)"
    using pval_mono [OF v nv] by (simp add: pval_ws is_ws_def)
  show ?thesis using p v' by (simp add: kt' is_ws_def del: pstr.simps pval.simps)
qed

lemma pmembers_items:
  assumes ih: "\<And>k v t vv r. (k, v) \<in> set it \<Longrightarrow> json_dumps v = Some (Inr t) \<Longrightarrow> json_val v = Some vv \<Longrightarrow>
      jscalar vv \<Longrightarrow> \<exists>n \<le> length t. pval n (t @ r) = Some (vv, r)"
    and ne: "it \<noteq> []"
    and dn: "list_all (\<lambda>(k, v). json_dumps v \<noteq> None) it"
    and vn: "list_all (\<lambda>(k, v). json_val v \<noteq> None) it"
    and j: "json_join (map (\<lambda>(k, v). (k, the (json_dumps v))) it) = Inr parts"
    and d: "decode_keys (map (\<lambda>(k, v). (k, the (json_val v))) it) = Some ks"
    and sc: "list_all (\<lambda>kv. list_all unicode_scalar (fst kv) \<and> jscalar (snd kv)) ks"
  shows "\<exists>n \<le> length (py_join '', '' parts @ ''}''). pmembers n (py_join '', '' parts @ ''}'' @ rest) = Some (ks, rest)"
  using assms
proof (induction it arbitrary: parts ks)
  case Nil
  then show ?case by simp
next
  case (Cons kv it)
  obtain k v where kv: "kv = (k, v)" by (cases kv)
  from Cons.prems(3) kv obtain rd where rd: "json_dumps v = Some rd" by auto
  from Cons.prems(4) kv obtain vv where vv: "json_val v = Some vv" by auto
  from Cons.prems(5) kv rd obtain kt vt prest where kt: "json_str k = Inr kt" and vt: "rd = Inr vt"
    and jr: "json_join (map (\<lambda>(k, v). (k, the (json_dumps v))) it) = Inr prest"
    and parts: "parts = (kt @ '': '' @ vt) # prest"
    by (auto simp: map_sum_eq_Inr split: sum.splits)
  from Cons.prems(6) kv vv obtain kc ks' where kc: "utf8_decode (map of_char k) = Some kc"
    and dr: "decode_keys (map (\<lambda>(k, v). (k, the (json_val v))) it) = Some ks'"
    and ks: "ks = (kc, vv) # ks'"
    by (auto split: option.splits)
  from Cons.prems(7) ks have skc: "list_all unicode_scalar kc" and svv: "jscalar vv"
    and sks: "list_all (\<lambda>kv. list_all unicode_scalar (fst kv) \<and> jscalar (snd kv)) ks'" by simp_all
  have ihv: "\<exists>n \<le> length vt. pval n (vt @ r) = Some (vv, r)" for r
    using Cons.prems(1) [of k v vt vv r] kv rd vt vv svv by simp
  show ?case
  proof (cases "it = []")
    case True
    with jr dr have "prest = []" "ks' = []" by simp_all
    obtain nv where nv: "nv \<le> length vt" and pv: "pval nv (vt @ CHR ''}'' # rest) = Some (vv, CHR ''}'' # rest)"
      using ihv by blast
    have "pmembers (Suc nv) (kt @ '': '' @ vt @ CHR ''}'' # rest) = Some ([(kc, vv)], rest)"
      using pmembers_member [OF kt kc skc pv order_refl] by (simp add: is_ws_def)
    moreover have "Suc nv \<le> length (py_join '', '' parts @ ''}'')"
      using nv by (simp add: parts \<open>prest = []\<close>)
    ultimately show ?thesis using ks \<open>prest = []\<close> \<open>ks' = []\<close> by (intro exI [of _ "Suc nv"]) (simp add: parts)
  next
    case False
    then have "prest \<noteq> []" using jr by (cases it) (auto simp: map_sum_eq_Inr split: sum.splits)
    have ih': "\<exists>n \<le> length t. pval n (t @ r) = Some (vv, r)"
      if "(k, v) \<in> set it" "json_dumps v = Some (Inr t)" "json_val v = Some vv" "jscalar vv" for k v t vv r
      using Cons.prems(1) [of k v t vv r] that by simp
    have dn': "list_all (\<lambda>(k, v). json_dumps v \<noteq> None) it" and vn': "list_all (\<lambda>(k, v). json_val v \<noteq> None) it"
      using Cons.prems(3,4) by simp_all
    have "\<exists>nm \<le> length (py_join '', '' prest @ ''}''). pmembers nm (py_join '', '' prest @ ''}'' @ rest) = Some (ks', rest)"
      by (rule Cons.IH [OF _ False dn' vn' jr dr sks]) (rule ih')
    then obtain nm where nm: "nm \<le> length (py_join '', '' prest @ ''}'')"
      and pm: "pmembers nm (py_join '', '' prest @ ''}'' @ rest) = Some (ks', rest)"
      by blast
    let ?r = "'', '' @ py_join '', '' prest @ ''}'' @ rest"
    obtain nv where nv: "nv \<le> length vt" and pv: "pval nv (vt @ ?r) = Some (vv, ?r)"
      using ihv by blast
    let ?n = "max nv nm"
    have "pmembers (Suc ?n) (kt @ '': '' @ vt @ ?r) = map_option (apfst (Cons (kc, vv))) (pmembers ?n (CHR '' '' # py_join '', '' prest @ ''}'' @ rest))"
      using pmembers_member [OF kt kc skc pv max.cobounded1] by (simp add: is_ws_def)
    also have "\<dots> = Some (ks, rest)"
      using pmembers_mono [OF pm max.cobounded2] by (simp add: pmembers_ws is_ws_def ks)
    finally have "pmembers (Suc ?n) (py_join '', '' parts @ ''}'' @ rest) = Some (ks, rest)"
      using \<open>prest \<noteq> []\<close> by (cases prest) (simp_all add: parts)
    moreover have "Suc ?n \<le> length (py_join '', '' parts @ ''}'')"
      using nv nm \<open>prest \<noteq> []\<close> by (cases prest) (simp_all add: parts)
    ultimately show ?thesis by blast
  qed
qed

lemma pmembers_Some_head: "pmembers n s = Some y \<Longrightarrow> \<exists>m r. n = Suc m \<and> skip_ws s = CHR 0x22 # r"
  by (cases n; cases "skip_ws s") (auto split: if_splits)

lemma pval_json_str:
  assumes "json_str s = Inr t" "utf8_decode (map of_char s) = Some cps" "list_all unicode_scalar cps"
  shows "\<exists>n \<le> length t. pval n (t @ r) = Some (JSv cps, r)"
proof -
  obtain q where q: "json_quote cps = CHR 0x22 # q" using json_quote_Cons by blast
  have t: "t = CHR 0x22 # q" using assms(1,2) q by (simp add: json_str_decoded)
  have "pval 1 (t @ r) = Some (JSv cps, r)"
    using pstr_json_quote [OF assms(3) q, of r] by (simp add: t is_ws_def del: pstr.simps)
  then show ?thesis by (intro exI [of _ 1]) (simp add: t)
qed

lemma pval_object:
  assumes "pmembers n (s @ r) = Some (ks, r)"
  shows "pval (Suc n) (CHR ''{'' # s @ r) = Some (JOv ks, r)"
proof -
  obtain m q where "n = Suc m" "skip_ws (s @ r) = CHR 0x22 # q" using pmembers_Some_head [OF assms] by blast
  with assms show ?thesis by (simp add: is_ws_def del: pmembers.simps)
qed

lemma json_dumps_reads_aux:
  shows "\<forall>t vv r. json_dumps j = Some (Inr t) \<longrightarrow> json_val j = Some vv \<longrightarrow> jscalar vv \<longrightarrow>
           (\<exists>n \<le> length t. pval n (t @ r) = Some (vv, r))"
  and "json_members kvs \<noteq> None \<longrightarrow> (\<forall>(k, v) \<in> set kvs. \<forall>t vv r. json_dumps v = Some (Inr t) \<longrightarrow> json_val v = Some vv \<longrightarrow> jscalar vv \<longrightarrow>
           (\<exists>n \<le> length t. pval n (t @ r) = Some (vv, r)))"
proof (induction j and kvs rule: json_dumps_json_members.induct)
  case (1 s)
  show ?case
  proof (intro allI impI)
    fix t vv r
    assume d: "json_dumps (JStr s) = Some (Inr t)" and v: "json_val (JStr s) = Some vv" and sc: "jscalar vv"
    from v obtain cps where c: "utf8_decode (map of_char s) = Some cps" and vv: "vv = JSv cps" by auto
    show "\<exists>n \<le> length t. pval n (t @ r) = Some (vv, r)"
      using pval_json_str [of s t cps r] d c sc vv by simp
  qed
next
  case (2 kvs)
  show ?case
  proof (intro allI impI)
    fix t vv r
    assume d: "json_dumps (JObj kvs) = Some (Inr t)" and v: "json_val (JObj kvs) = Some vv" and sc: "jscalar vv"
    from d obtain ms items where m: "json_members kvs = Some ms" and o: "py_order ms = Some items"
      and jo: "json_object items = Inr t" by (auto split: option.splits)
    from jo obtain parts where jp: "json_join items = Inr parts" and t: "t = ''{'' @ py_join '', '' parts @ ''}''"
      by (auto simp: json_object_def map_sum_eq_Inr)
    from v obtain ms' items' ks where m': "json_val_members kvs = Some ms'" and o': "py_order ms' = Some items'"
      and dk: "decode_keys items' = Some ks" and vv: "vv = JOv ks" by (auto split: option.splits)
    from json_members_eq [OF m] json_val_members_eq [OF m']
    have ms: "ms = map (\<lambda>(k, v). (k, the (json_dumps v))) kvs" and dn: "list_all (\<lambda>(k, v). json_dumps v \<noteq> None) kvs"
      and ms': "ms' = map (\<lambda>(k, v). (k, the (json_val v))) kvs" and vn: "list_all (\<lambda>(k, v). json_val v \<noteq> None) kvs"
      by simp_all
    from o obtain its where its: "py_order kvs = Some its" and items: "items = map (\<lambda>(k, v). (k, the (json_dumps v))) its"
      by (auto simp: ms py_order_map_vals [where f = "\<lambda>v. the (json_dumps v)", unfolded split_def] split_def)
    from o' its have items': "items' = map (\<lambda>(k, v). (k, the (json_val v))) its"
      by (simp add: ms' py_order_map_vals [where f = "\<lambda>v. the (json_val v)", unfolded split_def] split_def)
    have sub: "set its \<subseteq> set kvs" by (rule py_order_subset [OF its])
    show "\<exists>n \<le> length t. pval n (t @ r) = Some (vv, r)"
    proof (cases "its = []")
      case True
      with items items' jp dk have "parts = []" "ks = []" by simp_all
      then show ?thesis by (intro exI [of _ 1]) (simp add: t vv is_ws_def)
    next
      case False
      have ih: "\<exists>n \<le> length t. pval n (t @ r) = Some (vv, r)"
        if "(k, v) \<in> set its" "json_dumps v = Some (Inr t)" "json_val v = Some vv" "jscalar vv" for k v t vv r
        using "2.IH" m that sub by blast
      from sub dn vn have dn': "list_all (\<lambda>(k, v). json_dumps v \<noteq> None) its"
        and vn': "list_all (\<lambda>(k, v). json_val v \<noteq> None) its" by (auto simp: list_all_iff)
      from sc vv have sks: "list_all (\<lambda>kv. list_all unicode_scalar (fst kv) \<and> jscalar (snd kv)) ks" by simp
      have "\<exists>n \<le> length (py_join '', '' parts @ ''}''). pmembers n (py_join '', '' parts @ ''}'' @ r) = Some (ks, r)"
        by (rule pmembers_items [OF _ False dn' vn' _ _ sks]) (use ih jp items dk items' in simp_all)
      then obtain n where n: "n \<le> length (py_join '', '' parts @ ''}'')"
        and p: "pmembers n ((py_join '', '' parts @ ''}'') @ r) = Some (ks, r)" by auto
      show ?thesis using pval_object [OF p] n by (intro exI [of _ "Suc n"]) (simp add: t vv)
    qed
  qed
next
  case 3
  show ?case by simp
next
  case (4 k v kvs)
  then show ?case by (auto split: option.splits)
qed

text \<open>
  C35. Every body the \<open>json.dumps\<close> encoder produces reads back to the value it encodes: if
  \<open>json_dumps j\<close> returns the text \<open>t\<close> (no exception) and \<open>j\<close> denotes \<open>v\<close> with only
  scalar code points, the reference reader parses \<open>t\<close> to exactly \<open>v\<close>, whatever the nesting.
\<close>

lemma json_dumps_read_back:
  "json_dumps j = Some (Inr t) \<Longrightarrow> json_val j = Some v \<Longrightarrow> jscalar v \<Longrightarrow> json_read t = Some v"
proof -
  assume d: "json_dumps j = Some (Inr t)" and jv: "json_val j = Some v" and sc: "jscalar v"
  obtain n where n: "n \<le> length t" and p: "pval n (t @ []) = Some (v, [])"
    using json_dumps_reads_aux(1) [of j, rule_format, OF d jv sc] by blast
  have "pval (length t) t = Some (v, [])" using pval_mono [OF _ n] p by simp
  then show ?thesis by (simp add: json_read_def)
qed

text \<open>The script's body for bag \<open>1\<close>, user \<open>42\<close>, scanner \<open>7\<close> reads back to its value.\<close>

lemma json_dumps_read_back_witness:
  \<open>json_dumps (request_data ''1'' ''42'' ''7'') =
     Some (Inr ''{"scanner_id": "7", "bag": {"user_id": "42", "bag_id": "1"}}'') \<and>
   json_val (request_data ''1'' ''42'' ''7'') = Some (JOv [(map of_char ''scanner_id'', JSv (map of_char ''7'')),
      (map of_char ''bag'', JOv [(map of_char ''user_id'', JSv (map of_char ''42'')),
                                (map of_char ''bag_id'', JSv (map of_char ''1''))])]) \<and>
   jscalar (JOv [(map of_char ''scanner_id'', JSv (map of_char ''7'')),
      (map of_char ''bag'', JOv [(map of_char ''user_id'', JSv (map of_char ''42'')),
                                (map of_char ''bag_id'', JSv (map of_char ''1''))])]) \<and>
   json_read ''{"scanner_id": "7", "bag": {"user_id": "42", "bag_id": "1"}}'' =
     Some (JOv [(map of_char ''scanner_id'', JSv (map of_char ''7'')),
      (map of_char ''bag'', JOv [(map of_char ''user_id'', JSv (map of_char ''42'')),
                                (map of_char ''bag_id'', JSv (map of_char ''1''))])])\<close>
  (is "?d \<and> ?v \<and> ?s \<and> ?r")
proof -
  have d: ?d by (simp add: json_dumps_request_data_plain s_char_def)
  have v: ?v by (simp add: request_data_def py_order_data_keys py_order_bag_keys utf8_decode_ascii)
  have s: ?s by (simp add: unicode_scalar_def)
  show ?thesis using json_dumps_read_back [OF d v s] d v s by blast
qed

end
