(* ===== verification/Url.thy ===== *)
theory Url
  imports Request
begin

text \<open>
  What the URL of line 28 names on the server. \<open>requests\<close> splits the URL as RFC 3986
  does (\<open>scheme://authority path ?query #fragment\<close>, the path ending at the first
  \<open>?\<close> or \<open>#\<close>, the query at the first \<open>#\<close>) and sends the origin form of the
  request target (\<open>path_url\<close>: the path, \<open>/\<close> when empty, and the query when it is
  not empty); the fragment is never sent. The percent-encoding \<open>requests\<close> applies
  before (\<open>requote_uri\<close>) is in theory \<open>Quote\<close>.
\<close>

record url_parts =
  url_scheme :: "string option"
  url_authority :: "string option"
  url_path :: string
  url_query :: "string option"
  url_fragment :: "string option"

text \<open>The text before the first character satisfying \<open>P\<close>, and the text after it if there is one.\<close>

fun split_first :: "(char \<Rightarrow> bool) \<Rightarrow> string \<Rightarrow> string \<times> string option" where
  "split_first P [] = ([], None)"
| "split_first P (c # cs) =
     (if P c then ([], Some cs) else (let (a, b) = split_first P cs in (c # a, b)))"

definition gen_delim :: "char \<Rightarrow> bool" where
  "gen_delim c \<longleftrightarrow> c = CHR ''/'' \<or> c = CHR ''?'' \<or> c = CHR ''#''"

definition url_split :: "string \<Rightarrow> url_parts" where
  "url_split u =
     (let (s1, frag) = split_first (\<lambda>c. c = CHR ''#'') u;
          (s2, query) = split_first (\<lambda>c. c = CHR ''?'') s1;
          (sch, r) = (case split_first (\<lambda>c. c = CHR '':'' \<or> gen_delim c) s2 of
                        (a, Some b) \<Rightarrow> if a \<noteq> [] \<and> s2 ! length a = CHR '':'' then (Some a, b) else (None, s2)
                      | (a, None) \<Rightarrow> (None, s2));
          (auth, path) = (if take 2 r = ''//''
                          then (let (a, p) = split_first (\<lambda>c. c = CHR ''/'') (drop 2 r)
                                in (Some a, case p of None \<Rightarrow> [] | Some q \<Rightarrow> CHR ''/'' # q))
                          else (None, r))
      in \<lparr>url_scheme = sch, url_authority = auth, url_path = path, url_query = query,
          url_fragment = frag\<rparr>)"

definition request_target :: "string \<Rightarrow> string" where
  "request_target u =
     (let p = url_split u;
          path = (if url_path p = [] then ''/'' else url_path p)
      in path @ (case url_query p of None \<Rightarrow> [] | Some q \<Rightarrow> if q = [] then [] else CHR ''?'' # q))"

section \<open>Lemmas\<close>

lemma split_first_eq:
  "split_first P s = (takeWhile (\<lambda>c. \<not> P c) s,
     if \<exists>c\<in>set s. P c then Some (tl (dropWhile (\<lambda>c. \<not> P c) s)) else None)"
  by (induction s) auto

lemma takeWhile_rejoin:
  "takeWhile (\<lambda>c. c \<noteq> x) s @ (if x \<in> set s then x # tl (dropWhile (\<lambda>c. c \<noteq> x) s) else []) = s"
proof (induction s)
  case (Cons c s)
  then show ?case by auto
qed simp

lemma url_split_base:
  "url_split (base_url @ b) =
     (let b1 = takeWhile (\<lambda>c. c \<noteq> CHR ''#'') b
      in \<lparr>url_scheme = Some ''http'', url_authority = Some ''localhost:3000'',
          url_path = ''/bags/'' @ takeWhile (\<lambda>c. c \<noteq> CHR ''?'') b1,
          url_query = (if CHR ''?'' \<in> set b1 then Some (tl (dropWhile (\<lambda>c. c \<noteq> CHR ''?'') b1)) else None),
          url_fragment = (if CHR ''#'' \<in> set b then Some (tl (dropWhile (\<lambda>c. c \<noteq> CHR ''#'') b)) else None)\<rparr>)"
  by (simp add: url_split_def base_url_def split_first_eq gen_delim_def Let_def)


section \<open>What the server is asked for\<close>

text \<open>
  C29. The URL names the bag's resource, \<open>/bags/\<close> followed by the bag id as its path
  with no query and no fragment, exactly when the bag id holds no \<open>?\<close> and no \<open>#\<close>.
\<close>

theorem url_split_bag:
  "url_split (base_url @ b) =
     \<lparr>url_scheme = Some ''http'', url_authority = Some ''localhost:3000'', url_path = ''/bags/'' @ b,
      url_query = None, url_fragment = None\<rparr> \<longleftrightarrow> CHR ''?'' \<notin> set b \<and> CHR ''#'' \<notin> set b"
proof
  assume h: "CHR ''?'' \<notin> set b \<and> CHR ''#'' \<notin> set b"
  then have t1: "takeWhile (\<lambda>c. c \<noteq> CHR ''#'') b = b" and t2: "takeWhile (\<lambda>c. c \<noteq> CHR ''?'') b = b"
    by (auto simp: takeWhile_eq_all_conv)
  show "url_split (base_url @ b) = \<lparr>url_scheme = Some ''http'', url_authority = Some ''localhost:3000'',
      url_path = ''/bags/'' @ b, url_query = None, url_fragment = None\<rparr>"
    unfolding url_split_base Let_def t1 t2 using h by simp
next
  assume h: "url_split (base_url @ b) = \<lparr>url_scheme = Some ''http'', url_authority = Some ''localhost:3000'',
      url_path = ''/bags/'' @ b, url_query = None, url_fragment = None\<rparr>"
  then have f: "CHR ''#'' \<notin> set b" by (simp add: url_split_base Let_def split: if_splits)
  then have t1: "takeWhile (\<lambda>c. c \<noteq> CHR ''#'') b = b" by (auto simp: takeWhile_eq_all_conv)
  from h f show "CHR ''?'' \<notin> set b \<and> CHR ''#'' \<notin> set b"
    unfolding url_split_base Let_def t1 by (simp split: if_splits)
qed


end
