(* ===== verification/Quote.thy ===== *)
theory Quote
  imports Url
begin

text \<open>
  The percent-encoding \<open>requests\<close> applies to the URL of line 28 before it sends it.
  \<open>PreparedRequest.prepare_url\<close> splits the URL, rebuilds it with \<open>urlunparse\<close> (an
  empty query or fragment is dropped) and passes it to \<open>requote_uri\<close>:
  \<open>unquote_unreserved\<close> decodes the escapes of unreserved characters and raises
  \<open>InvalidURL\<close> on an escape of two alphanumerics that are not hex digits, and
  Python 2's \<open>urllib.quote\<close> then escapes every byte outside the safe set as \<open>%XX\<close>
  with upper-case hex digits; when \<open>InvalidURL\<close> was raised the whole URL is quoted
  again with \<open>%\<close> no longer safe. \<open>pct_decode\<close> is the reference for what a server
  reads: \<open>urllib.unquote\<close>, not code of the repository.
\<close>

section \<open>Definitions\<close>

text \<open>\<open>UNRESERVED_SET\<close> of \<open>requests.utils\<close>: the unreserved characters of RFC 3986.\<close>

definition unreserved_set :: string where
  "unreserved_set = ''ABCDEFGHIJKLMNOPQRSTUVWXYZabcdefghijklmnopqrstuvwxyz0123456789-._~''"

text \<open>\<open>str.isalnum\<close> of one byte (ASCII letters and digits, the C locale).\<close>

definition py_isalnum :: "char \<Rightarrow> bool" where
  "py_isalnum c \<longleftrightarrow>
     (let n = (of_char c :: nat) in 48 \<le> n \<and> n \<le> 57 \<or> 65 \<le> n \<and> n \<le> 90 \<or> 97 \<le> n \<and> n \<le> 122)"

text \<open>The value of one digit of \<open>int(h, 16)\<close>; None where \<open>int\<close> raises \<open>ValueError\<close>.\<close>

definition hex_int :: "char \<Rightarrow> nat option" where
  "hex_int c =
     (let n = (of_char c :: nat) in
      if 48 \<le> n \<and> n \<le> 57 then Some (n - 48)
      else if 65 \<le> n \<and> n \<le> 70 then Some (n - 55)
      else if 97 \<le> n \<and> n \<le> 102 then Some (n - 87) else None)"

text \<open>\<open>s.split(d)\<close> for a one-character separator: always at least one part.\<close>

fun py_split :: "char \<Rightarrow> string \<Rightarrow> string list" where
  "py_split d [] = [[]]"
| "py_split d (c # s) = (let ps = py_split d s in if c = d then [] # ps else (c # hd ps) # tl ps)"

text \<open>
  One pass of the loop of \<open>unquote_unreserved\<close> over \<open>parts[1:]\<close>: the part after a
  \<open>%\<close>, rewritten; None where \<open>InvalidURL\<close> is raised.
\<close>

definition unquote_part :: "string \<Rightarrow> string option" where
  "unquote_part p =
     (let h = take 2 p in
      if length h = 2 \<and> list_all py_isalnum h then
        (case (hex_int (h ! 0), hex_int (h ! 1)) of
           (Some a, Some b) \<Rightarrow>
             (let c = char_of (16 * a + b) in
              Some (if c \<in> set unreserved_set then c # drop 2 p else CHR ''%'' # p))
         | _ \<Rightarrow> None)
      else Some (CHR ''%'' # p))"

definition unquote_unreserved :: "string \<Rightarrow> string option" where
  "unquote_unreserved uri =
     (case py_split CHR ''%'' uri of
        [] \<Rightarrow> Some uri
      | p # ps \<Rightarrow> map_option (\<lambda>qs. p @ concat qs) (those (map unquote_part ps)))"

text \<open>\<open>always_safe\<close> of Python 2.7's \<open>urllib\<close> (\<open>~\<close> is not in it).\<close>

definition always_safe :: string where
  "always_safe = ''ABCDEFGHIJKLMNOPQRSTUVWXYZabcdefghijklmnopqrstuvwxyz0123456789_.-''"

definition hex_upper :: "nat \<Rightarrow> char" where
  "hex_upper d = ''0123456789ABCDEF'' ! d"

text \<open>
  The quoter of \<open>urllib.quote\<close>: \<open>_safe_map\<close> (an ASCII byte of \<open>always_safe\<close> to
  itself, every other byte to \<open>'%{:02X}'\<close>) updated with the bytes of \<open>safe\<close>.
\<close>

definition quote_char :: "string \<Rightarrow> char \<Rightarrow> string" where
  "quote_char safe c =
     (if c \<in> set safe then [c]
      else if (of_char c :: nat) < 128 \<and> c \<in> set always_safe then [c]
      else [CHR ''%'', hex_upper (of_char c div 16), hex_upper (of_char c mod 16)])"

definition py_rstrip :: "string \<Rightarrow> string \<Rightarrow> string" where
  "py_rstrip cs s = rev (dropWhile (\<lambda>c. c \<in> set cs) (rev s))"

text \<open>\<open>urllib.quote(s, safe)\<close>, with its shortcut for a string that needs no escape.\<close>

definition py_quote :: "string \<Rightarrow> string \<Rightarrow> string" where
  "py_quote safe s =
     (if s = [] then s
      else if py_rstrip (always_safe @ safe) s = [] then s
      else concat (map (quote_char safe) s))"

definition safe_with_percent :: string where
  "safe_with_percent = ''!#$%&'()*+,/:;=?@[]~''"

definition safe_without_percent :: string where
  "safe_without_percent = ''!#$&'()*+,/:;=?@[]~''"

definition requote_uri :: "string \<Rightarrow> string" where
  "requote_uri uri =
     (case unquote_unreserved uri of
        Some u \<Rightarrow> py_quote safe_with_percent u
      | None \<Rightarrow> py_quote safe_without_percent uri)"

text \<open>
  The URL \<open>prepare_url\<close> stores: None where it raises (\<open>MissingSchema\<close> with no
  scheme, \<open>InvalidURL\<close> with no host); otherwise scheme, authority, the path (\<open>/\<close>
  when empty), the query and the fragment when not empty, requoted.
\<close>

definition prepared_url :: "string \<Rightarrow> string option" where
  "prepared_url u =
     (let p = url_split u in
      case (url_scheme p, url_authority p) of
        (Some s, Some a) \<Rightarrow>
          if s = [] \<or> a = [] then None
          else Some (requote_uri (s @ ''://'' @ a @ (if url_path p = [] then ''/'' else url_path p)
                 @ (case url_query p of None \<Rightarrow> [] | Some q \<Rightarrow> if q = [] then [] else CHR ''?'' # q)
                 @ (case url_fragment p of None \<Rightarrow> [] | Some f \<Rightarrow> if f = [] then [] else CHR ''#'' # f)))
      | _ \<Rightarrow> None)"

text \<open>Reference: \<open>urllib.unquote\<close>, the decoding of \<open>%XX\<close> escapes a server applies.\<close>

fun pct_decode :: "string \<Rightarrow> string" where
  "pct_decode (c # a # b # r) =
     (if c = CHR ''%'' then
        (case (hex_int a, hex_int b) of
           (Some x, Some y) \<Rightarrow> char_of (16 * x + y) # pct_decode r
         | _ \<Rightarrow> c # pct_decode (a # b # r))
      else c # pct_decode (a # b # r))"
| "pct_decode s = s"

text \<open>A printable ASCII character other than the space: what may stand in a URL as sent.\<close>

definition uri_char :: "char \<Rightarrow> bool" where
  "uri_char c \<longleftrightarrow> 33 \<le> (of_char c :: nat) \<and> (of_char c :: nat) \<le> 126"

section \<open>Lemmas\<close>

lemma of_char_less_256: "(of_char c :: nat) < 256"
  using of_char_mod_256 [of c] by (metis mod_less_divisor zero_less_numeral)

lemma always_safe_ascii: "c \<in> set always_safe \<Longrightarrow> (of_char c :: nat) < 128"
  by (auto simp: always_safe_def)

lemma py_rstrip_Nil: "py_rstrip cs s = [] \<longleftrightarrow> list_all (\<lambda>c. c \<in> set cs) s"
  by (auto simp: py_rstrip_def dropWhile_eq_Nil_conv list_all_iff)

lemma py_quote_map: "py_quote safe s = concat (map (quote_char safe) s)"
proof (cases "py_rstrip (always_safe @ safe) s = []")
  case True
  then have "\<forall>c \<in> set s. quote_char safe c = [c]"
    by (auto simp: py_rstrip_Nil list_all_iff quote_char_def always_safe_ascii)
  then have "concat (map (quote_char safe) s) = s" by (induction s) auto
  then show ?thesis by (simp add: py_quote_def)
qed (simp add: py_quote_def)

lemma hex_int_hex_upper: "d < 16 \<Longrightarrow> hex_int (hex_upper d) = Some d"
proof -
  assume "d < 16"
  then have "d \<in> set [0..<16]" by simp
  then show ?thesis by (auto simp: upt_rec hex_upper_def hex_int_def)
qed

lemma pct_decode_Cons: "c \<noteq> CHR ''%'' \<Longrightarrow> pct_decode (c # r) = c # pct_decode r"
  by (cases r rule: pct_decode.cases) simp_all

lemma pct_decode_quote_char:
  assumes "c \<noteq> CHR ''%'' \<or> CHR ''%'' \<notin> set safe"
  shows "pct_decode (quote_char safe c @ r) = c # pct_decode r"
proof -
  let ?n = "of_char c :: nat"
  have n: "?n div 16 < 16" "?n mod 16 < 16" using of_char_less_256 [of c] by (simp_all add: div_less_iff_less_mult)
  have e: "char_of (16 * (?n div 16) + ?n mod 16) = c" by simp
  have pct: "CHR ''%'' \<notin> set always_safe" by (simp add: always_safe_def)
  show ?thesis
  proof (cases "quote_char safe c = [c]")
    case True
    then have "c \<noteq> CHR ''%''" using assms pct by (auto simp: quote_char_def split: if_splits)
    then show ?thesis using True by (simp add: pct_decode_Cons)
  next
    case False
    then have "quote_char safe c = [CHR ''%'', hex_upper (?n div 16), hex_upper (?n mod 16)]"
      by (simp add: quote_char_def split: if_splits)
    then show ?thesis by (simp add: hex_int_hex_upper [OF n(1)] hex_int_hex_upper [OF n(2)] e)
  qed
qed

lemma pct_decode_quote:
  "list_all (\<lambda>c. c \<noteq> CHR ''%'' \<or> CHR ''%'' \<notin> set safe) s \<Longrightarrow>
   pct_decode (concat (map (quote_char safe) s)) = s"
proof (induction s)
  case (Cons c s)
  then show ?case using pct_decode_quote_char [of c safe "concat (map (quote_char safe) s)"] by simp
qed simp

lemma py_split_plain: "d \<notin> set s \<Longrightarrow> py_split d s = [s]"
  by (induction s) (auto simp: Let_def)

lemma unquote_unreserved_plain: "CHR ''%'' \<notin> set u \<Longrightarrow> unquote_unreserved u = Some u"
  by (simp add: unquote_unreserved_def py_split_plain)

lemma quote_char_unreserved:
  "c \<in> set unreserved_set \<Longrightarrow> quote_char safe_with_percent c = [c]"
proof -
  have "list_all (\<lambda>c. quote_char safe_with_percent c = [c]) unreserved_set"
    by (simp add: unreserved_set_def quote_char_def always_safe_def safe_with_percent_def)
  then show "c \<in> set unreserved_set \<Longrightarrow> quote_char safe_with_percent c = [c]"
    by (simp add: list_all_iff)
qed

lemma quote_char_base_url: "list_all (\<lambda>c. quote_char safe_with_percent c = [c]) base_url"
  by (simp add: base_url_def quote_char_def always_safe_def safe_with_percent_def)

lemma uri_char_hex_upper: "d < 16 \<Longrightarrow> uri_char (hex_upper d)"
proof -
  assume "d < 16"
  then have "d \<in> set [0..<16]" by simp
  then show ?thesis by (auto simp: upt_rec hex_upper_def uri_char_def)
qed

lemma uri_char_quote_char:
  assumes "list_all uri_char safe" shows "list_all uri_char (quote_char safe c)"
proof -
  have n: "(of_char c :: nat) div 16 < 16" "(of_char c :: nat) mod 16 < 16"
    using of_char_less_256 [of c] by (simp_all add: div_less_iff_less_mult)
  have a: "list_all uri_char always_safe" by (simp add: always_safe_def uri_char_def)
  have p: "uri_char CHR ''%''" by (simp add: uri_char_def)
  show ?thesis
  proof (cases "c \<in> set safe \<or> c \<in> set always_safe")
    case True
    then have "uri_char c" using assms a by (auto simp: list_all_iff)
    then show ?thesis using p uri_char_hex_upper [OF n(1)] uri_char_hex_upper [OF n(2)]
      by (simp add: quote_char_def)
  next
    case False
    then show ?thesis using p uri_char_hex_upper [OF n(1)] uri_char_hex_upper [OF n(2)]
      by (simp add: quote_char_def)
  qed
qed

lemma uri_char_quote:
  "list_all uri_char safe \<Longrightarrow> list_all uri_char (concat (map (quote_char safe) s))"
  using uri_char_quote_char by (induction s) auto

lemma unreserved_plain:
  "c \<in> set unreserved_set \<Longrightarrow> c \<noteq> CHR ''%'' \<and> c \<noteq> CHR ''?'' \<and> c \<noteq> CHR ''#''"
proof -
  have "list_all (\<lambda>c. c \<noteq> CHR ''%'' \<and> c \<noteq> CHR ''?'' \<and> c \<noteq> CHR ''#'') unreserved_set"
    by (simp add: unreserved_set_def)
  then show "c \<in> set unreserved_set \<Longrightarrow> c \<noteq> CHR ''%'' \<and> c \<noteq> CHR ''?'' \<and> c \<noteq> CHR ''#''"
    by (simp add: list_all_iff)
qed

lemma concat_map_id: "\<forall>c \<in> set s. f c = [c] \<Longrightarrow> concat (map f s) = s"
  by (induction s) auto

section \<open>What requests sends\<close>


text \<open>
  C37. A URL with no \<open>%\<close> is sent so that decoding its escapes gives it back: every
  byte \<open>requote_uri\<close> escapes (a space, a quote, a byte above 127, ...) is decoded to
  itself by the server.
\<close>

theorem requote_uri_roundtrip: "CHR ''%'' \<notin> set u \<Longrightarrow> pct_decode (requote_uri u) = u"
proof -
  assume u: "CHR ''%'' \<notin> set u"
  then have "list_all (\<lambda>c. c \<noteq> CHR ''%'' \<or> CHR ''%'' \<notin> set safe_with_percent) u"
    by (auto simp: list_all_iff)
  then show ?thesis by (simp add: requote_uri_def unquote_unreserved_plain [OF u] py_quote_map pct_decode_quote)
qed

theorem requote_uri_roundtrip_witness:
  "requote_uri (''http://localhost:3000/bags/caf'' @ [CHR 0xC3, CHR 0xA9] @ '' 1'') =
     ''http://localhost:3000/bags/caf%C3%A9%201'' \<and>
   pct_decode (requote_uri (''http://localhost:3000/bags/caf'' @ [CHR 0xC3, CHR 0xA9] @ '' 1'')) =
     ''http://localhost:3000/bags/caf'' @ [CHR 0xC3, CHR 0xA9] @ '' 1''"
proof
  show "requote_uri (''http://localhost:3000/bags/caf'' @ [CHR 0xC3, CHR 0xA9] @ '' 1'') =
     ''http://localhost:3000/bags/caf%C3%A9%201''"
    by (simp add: requote_uri_def unquote_unreserved_def py_quote_map quote_char_def always_safe_def
        safe_with_percent_def hex_upper_def)
  show "pct_decode (requote_uri (''http://localhost:3000/bags/caf'' @ [CHR 0xC3, CHR 0xA9] @ '' 1'')) =
     ''http://localhost:3000/bags/caf'' @ [CHR 0xC3, CHR 0xA9] @ '' 1''"
    by (rule requote_uri_roundtrip) simp
qed

text \<open>
  C38. When decoding raises \<open>InvalidURL\<close> (an escape of two alphanumerics that are not
  hex digits), the fallback escapes every \<open>%\<close> as \<open>%25\<close>, and the URL sent still
  decodes to the URL given.
\<close>

theorem requote_uri_invalid: "unquote_unreserved u = None \<Longrightarrow> pct_decode (requote_uri u) = u"
proof -
  assume n: "unquote_unreserved u = None"
  have "list_all (\<lambda>c. c \<noteq> CHR ''%'' \<or> CHR ''%'' \<notin> set safe_without_percent) u"
    by (simp add: safe_without_percent_def list_all_iff)
  then show ?thesis by (simp add: requote_uri_def n py_quote_map pct_decode_quote)
qed

theorem requote_uri_invalid_witness:
  "unquote_unreserved ''http://localhost:3000/bags/%zz'' = None \<and>
   requote_uri ''http://localhost:3000/bags/%zz'' = ''http://localhost:3000/bags/%25zz'' \<and>
   pct_decode (requote_uri ''http://localhost:3000/bags/%zz'') = ''http://localhost:3000/bags/%zz''"
proof -
  have n: "unquote_unreserved ''http://localhost:3000/bags/%zz'' = None"
    by (simp add: unquote_unreserved_def unquote_part_def py_isalnum_def hex_int_def)
  have q: "requote_uri ''http://localhost:3000/bags/%zz'' = ''http://localhost:3000/bags/%25zz''"
    by (simp add: requote_uri_def n py_quote_map quote_char_def always_safe_def safe_without_percent_def
        hex_upper_def)
  show ?thesis using n q requote_uri_invalid [OF n] by simp
qed

text \<open>
  C39. Whatever the URL, what \<open>requote_uri\<close> returns holds only printable ASCII
  characters other than the space: no byte above 127, no control character, no blank.
\<close>

theorem requote_uri_printable: "list_all uri_char (requote_uri u)"
proof -
  have "list_all uri_char safe_with_percent" "list_all uri_char safe_without_percent"
    by (simp_all add: safe_with_percent_def safe_without_percent_def uri_char_def)
  then show ?thesis by (simp add: requote_uri_def py_quote_map uri_char_quote split: option.split)
qed

text \<open>
  C40. For a bag id of unreserved characters (letters, digits, \<open>-._~\<close>) the URL of line 28
  goes out unchanged and the server is asked for \<open>/bags/\<close> followed by the bag id.
\<close>

theorem prepared_url_bag:
  "list_all (\<lambda>c. c \<in> set unreserved_set) b \<Longrightarrow>
   prepared_url (base_url @ b) = Some (base_url @ b) \<and> request_target (base_url @ b) = ''/bags/'' @ b"
proof -
  assume b: "list_all (\<lambda>c. c \<in> set unreserved_set) b"
  then have nd: "CHR ''%'' \<notin> set b" "CHR ''?'' \<notin> set b" "CHR ''#'' \<notin> set b"
    using unreserved_plain by (auto simp: list_all_iff)
  then have t1: "takeWhile (\<lambda>c. c \<noteq> CHR ''#'') b = b" and t2: "takeWhile (\<lambda>c. c \<noteq> CHR ''?'') b = b"
    by (auto simp: takeWhile_eq_all_conv)
  have split: "url_split (base_url @ b) =
     \<lparr>url_scheme = Some ''http'', url_authority = Some ''localhost:3000'', url_path = ''/bags/'' @ b,
      url_query = None, url_fragment = None\<rparr>"
    unfolding url_split_base Let_def t1 t2 using nd by simp
  have np: "CHR ''%'' \<notin> set (base_url @ b)" using nd by (simp add: base_url_def)
  have "\<forall>c \<in> set (base_url @ b). quote_char safe_with_percent c = [c]"
    using quote_char_base_url b quote_char_unreserved by (auto simp: list_all_iff)
  then have r: "requote_uri (base_url @ b) = base_url @ b"
    by (simp add: requote_uri_def unquote_unreserved_plain [OF np] py_quote_map concat_map_id)
  have "prepared_url (base_url @ b) = Some (requote_uri (base_url @ b))"
    unfolding prepared_url_def Let_def split by (simp add: base_url_def)
  then show ?thesis using r by (simp add: request_target_def split)
qed

theorem prepared_url_bag_witness:
  "prepared_url (base_url @ ''AB-12.x~'') = Some (base_url @ ''AB-12.x~'') \<and>
   request_target (base_url @ ''AB-12.x~'') = ''/bags/AB-12.x~''"
  using prepared_url_bag [of "''AB-12.x~''"] by (simp add: unreserved_set_def)

text \<open>
  \<open>unquote_unreserved\<close> decodes the escape \<open>%41\<close> after an incomplete escape \<open>%4\<close> and
  so forms a new escape: the bag id \<open>%4%41\<close> is sent as \<open>%4A\<close>, which a server decodes
  as \<open>J\<close>, where \<open>%4%41\<close> decodes to \<open>%4A\<close>.
\<close>

lemma requote_merges_escapes:
  "prepared_url (base_url @ ''%4%41'') = Some (base_url @ ''%4A'') \<and>
   pct_decode (base_url @ ''%4A'') = base_url @ ''J'' \<and>
   pct_decode (base_url @ ''%4%41'') = base_url @ ''%4A''"
proof -
  have s: "url_split (base_url @ ''%4%41'') =
     \<lparr>url_scheme = Some ''http'', url_authority = Some ''localhost:3000'', url_path = ''/bags/%4%41'',
      url_query = None, url_fragment = None\<rparr>"
    by (simp add: url_split_base)
  have u: "unquote_unreserved (base_url @ ''%4%41'') = Some (base_url @ ''%4A'')"
    by (simp add: unquote_unreserved_def unquote_part_def py_isalnum_def hex_int_def base_url_def
        unreserved_set_def char_of_def bit_0 Let_def)
  have q: "requote_uri (base_url @ ''%4%41'') = base_url @ ''%4A''"
    unfolding requote_uri_def u
    by (simp add: py_quote_map quote_char_def always_safe_def safe_with_percent_def base_url_def)
  have "prepared_url (base_url @ ''%4%41'') = Some (requote_uri (base_url @ ''%4%41''))"
    unfolding prepared_url_def Let_def s by (simp add: base_url_def)
  then show ?thesis using q by (simp add: base_url_def hex_int_def char_of_def bit_0)
qed

end
