(* ===== verification/Spec2Isabelle.thy ===== *)
theory Spec2Isabelle
  imports Console Crashes JsonRoundtrip Quote
begin

text \<open>
  \<^bold>\<open>A verification model of the hermes-server scan forwarder.\<close>

  The repository is one Python 2 script, \<open>src/driver.py\<close>. It opens the serial port
  \<open>/dev/tty.usbmodem14201\<close> at 9600 baud (line 5), prints \<open>connected\<close> (line 7),
  and then loops for ever (lines 9 to 29): it reads a line from the port, removes every
  dash, cuts \<open>half_one = line[:16]\<close>, \<open>half_two = line[16:32]\<close> and
  \<open>station_num = line[33]\<close>, prints the three, builds the JSON body
  \<open>{bag: {bag_id, user_id}, scanner_id}\<close>, prints it, POSTs it to
  \<open>http://localhost:3000/bags/<bag_id>\<close> and prints the response text. No exception is
  caught: an error in any step ends the script.

  \<^bold>\<open>Theories, in the order they build on each other.\<close>
  \<^item> \<open>Prelude\<close>: the Python 2 runtime the script uses. The exceptions that can end it
    (\<open>exc\<close>: \<open>IndexError\<close>, \<open>SerialException\<close>, \<open>ConnectionError\<close>) and
    results as \<open>exc + 'a\<close>; CPython slicing \<open>py_slice\<close> (clamped, never raising),
    subscription \<open>py_getitem\<close> (raising \<open>IndexError\<close> out of range) and
    \<open>str.replace\<close> as \<open>py_replace\<close>, with the rules (\<open>py_simps\<close>) that reduce
    them to \<open>take\<close>, \<open>drop\<close>, \<open>!\<close> and \<open>filter\<close> on the bounds the script uses.
    A Python 2 \<open>str\<close> is a byte string: \<open>string\<close>.
  \<^item> \<open>Serial\<close>: the port (\<open>serial.Serial\<close>, line 5; \<open>ser.readline()\<close>,
    line 10). The device is a list of \<open>serial_event\<close>s, bytes or a disconnection.
    \<open>open_serial\<close> raises when the port is absent. \<open>readline\<close> is pyserial's
    \<open>read_until\<close> loop without timeout: one byte at a time, the terminator kept;
    \<open>Blocked\<close> when the events run out (the real call waits for ever), \<open>Failed\<close>
    on a disconnection. Proved: the loop equals a reference (C14); what it returns is a
    line of the device (C15); it consumes one terminator per line, and it blocks exactly
    when neither a terminator nor a disconnection is pending.
  \<^item> \<open>Scan\<close>: lines 10 to 13, \<open>parse_line\<close>, into the record \<open>scan\<close>
    (\<open>bag_id\<close>, \<open>user_id\<close>, \<open>scanner_id\<close>). Proved: the parse on every branch
    (C2), the round trip from a fixed-width line (C6), the specification's example (C7),
    that offset 32 is never read (C8), that dashes do not count (C9), and that a
    successful parse is well formed (\<open>wf_scan\<close>: 16, 16 and 1 characters, no dash).
  \<^item> \<open>Request\<close>: lines 17 to 28: the headers, the \<open>data\<close> dict as a \<open>json\<close>
    value (an object is an association list in the literal's key order; lookups by key,
    \<open>json_path\<close>, do not depend on that order), the URL, the request record, and the
    check \<open>wf_request\<close> that a posted request is a POST with the JSON content type to
    the URL ending in its body's \<open>bag_id\<close>.
  \<^item> \<open>PyDict\<close>: CPython 2.7's dict as the displays of lines 17 to 26 build it (LP64,
    no hash randomisation): \<open>str_hash\<close> is \<open>string_hash\<close> on \<open>64 word\<close>s, the
    table has 8 slots, \<open>probe\<close> is \<open>lookdict_string\<close>'s perturbed probe,
    \<open>dict_setitem\<close> is \<open>PyDict_SetItem\<close> (a resize, needed from the sixth key, gives
    \<open>None\<close>), \<open>dict_build\<close> a display and \<open>py_order\<close> its iteration order.
    Proved: set then get returns the value (C22); a display with distinct keys iterates
    over a permutation of its pairs (C23); up to five keys the order is always defined
    (C24); every table a display builds keeps the invariant \<open>dict_inv\<close> (every
    stored key is found where it is) and at most five entries (C33).
  \<^item> \<open>Utf8\<close>: \<open>PyUnicode_DecodeUTF8\<close> in strict mode, which \<open>json.dumps\<close> applies to
    a \<open>str\<close> with a byte above 127. Proved: it accepts exactly the canonical
    encodings, in both directions of the round trip with \<open>utf8_encode\<close> (C25, C26).
  \<^item> \<open>Render\<close>: the text of the data dict. \<open>py_repr\<close> is what \<open>print data\<close>
    writes (\<open>dict_repr\<close>, \<open>PyString_Repr\<close>); \<open>json_dumps\<close> is the body of
    \<open>requests.post(json = data)\<close> (the C encoder with \<open>ensure_ascii\<close>; \<open>None\<close> only
    for a dict \<open>PyDict\<close> does not lay out). Proved: the ASCII fast path equals the
    decode-then-escape path (C17); the exact body of \<open>data\<close>, keys in hash order, or
    \<open>UnicodeDecodeError\<close> (C18); the exact printed repr (C19); any body is printable
    ASCII (C20).
  \<^item> \<open>Driver\<close>: the script, lines 5 to 29. The state is the record \<open>world\<close>: the
    events the device has still to deliver, what was printed (\<open>printed\<close>: a string,
    or the data dict, whose text is \<open>py_repr\<close>), and the requests posted. The server is
    a parameter, a function from a request to a response or \<open>ConnectionError\<close>.
    \<open>loop_body\<close> is one pass of the loop (every branch: blocked read, failed read, parse
    error, body encoding error, network error, success); \<open>run_loop\<close> runs it with fuel;
    \<open>driver_main\<close> opens the port, prints \<open>connected\<close> and runs the loop.
    \<open>forward_lines\<close> is the abstract specification, on lines instead of bytes;
    \<open>reach\<close> is the step relation of the script and its environment (a pass of the
    loop, or the device delivering more events), and \<open>driver_inv\<close> the invariant at
    the top of the loop. Proved: the script refines the line-level forwarder (C1); the
    invariant holds in every reachable state (C3); the console and the posts stay in
    step, each post preceded by its printed values and followed by its response (C28); the loop halts with more fuel than
    pending lines (C4) and blocks only when no line is pending (C5); the error paths (C10
    to C13, C21); no deduplication (C16).

  \<^item> \<open>JsonRead\<close>: not code of the repository but the reference for what the server
    reads: a JSON reader for strings (escapes, \<open>\\u\<close> with surrogate pairs) and
    objects, \<open>json_read\<close>, run on fuel equal to the length of its input, which bounds
    the nesting it can meet. Proved: for fields that are UTF-8 of Unicode scalar values,
    the body is valid JSON and reads back as the object with exactly the fields' code
    points (C27).

  \<^item> \<open>JsonRoundtrip\<close>: the same for every value, whatever its nesting.
    \<open>json_val\<close> is the value a \<open>json\<close> term denotes (strings decoded from UTF-8,
    dicts in CPython's iteration order). Proved, with fuel monotonicity of the reader
    (\<open>pval_mono\<close>) and the slot order of a dict being independent of its values
    (\<open>py_order_map_vals\<close>): every text \<open>json_dumps\<close> returns reads back to the
    value it encodes when its code points are Unicode scalar values (C35).

  \<^item> \<open>Url\<close>: the URL of line 28 as \<open>requests\<close> reads it: \<open>url_split\<close> splits it
    as RFC 3986 does into scheme, authority, path, query and fragment, and
    \<open>request_target\<close> is the path and query the server receives. Proved: the path is
    \<open>/bags/\<close> and the bag id exactly when the bag id holds no \<open>?\<close> or \<open>#\<close>
    (C29); the target is always \<open>/bags/\<close> and the bag id up to its first \<open>#\<close>,
    less a \<open>?\<close> that would open an empty query (C30).

  \<^item> \<open>Quote\<close>: what \<open>PreparedRequest.prepare_url\<close> does to the URL before it is
    sent: \<open>prepared_url\<close> rebuilds it from its parts and applies \<open>requote_uri\<close>
    (\<open>requests.utils\<close>), that is \<open>unquote_unreserved\<close> (the URL split at \<open>%\<close>,
    \<open>unquote_part\<close> per part, \<open>InvalidURL\<close> as None) followed by Python 2's
    \<open>urllib.quote\<close> (\<open>py_quote\<close>, \<open>quote_char\<close>), or \<open>quote\<close> with \<open>%\<close>
    unsafe when \<open>InvalidURL\<close> was raised. \<open>pct_decode\<close> (\<open>urllib.unquote\<close>) is
    the reference for what a server decodes. Proved: the quote shortcut never changes
    the result (C36); a URL with no \<open>%\<close> decodes back to itself (C37), and so does
    every URL on the \<open>InvalidURL\<close> path (C38); the URL sent is printable ASCII without
    blanks (C39); a bag id of unreserved characters is sent unchanged and the target
    is \<open>/bags/\<close> and the bag id (C40). \<open>requote_merges_escapes\<close> shows that a
    scanned \<open>%4%41\<close> is sent as \<open>%4A\<close>, which decodes to a different bag id.

  \<^item> \<open>Console\<close>: what \<open>print\<close> writes: \<open>print_text\<close> of one printed value
    (\<open>str(x)\<close> and a newline, the data dict through \<open>py_repr\<close>) and \<open>console\<close>, the
    whole output. Proved: the six lines of one answered pass (C31), and the exact output
    of the specification's example (C32).

  \<^item> \<open>Crashes\<close>: how a run ends the script. Proved: when a run raises, the
    requests posted are those of answered passes plus at most one, the one whose post
    raised; every other exception comes before anything more is posted (C34).

  \<^bold>\<open>Fuel.\<close> The loop is \<open>while True\<close>: it never returns, so \<open>run_loop n\<close> makes at
  most \<open>n\<close> passes and reports \<open>Next\<close> when it is still going. Every pass that
  does not block or raise consumes one terminator of the device's events (the count
  \<open>pending\<close>), so \<open>pending + 1\<close> passes always reach a blocked read or an exception
  (C4), and the refinement (C1) uses exactly one pass per line. The dict probe runs on
  \<open>probe_fuel = 21\<close>: after 13 steps the 64-bit \<open>perturb\<close>, shifted right by 5 at
  each step, is 0, and then \<open>i = 5 * i + 1\<close> visits all 8 slots within 8 steps, so the
  probe reaches an empty slot whenever the table has one (\<open>probe_finds\<close>, used by C24).

  \<^bold>\<open>Not modelled.\<close> The HTTP exchange itself (the server is a function of the
  request) and the bag service behind it; the IDNA encoding of the host, which is
  ASCII; the UTF-8 decoding of the URL in \<open>prepare_url\<close>, which raises the
  \<open>UnicodeDecodeError\<close> the body's encoding raises for the same field; the encoding of
  \<open>r.text\<close>, a unicode string, when it is printed (it may raise
  \<open>UnicodeEncodeError\<close> on a terminal that is not UTF-8); a dict resize, which the
  script's displays of one and two keys never need; the baud rate, passed to the port
  with no other effect; timing, and the way the operating system delivers bytes.

\<close>

end
